theory Spec2Isabelle
  imports Complex_Main "HOL-Library.AList"
begin

section \<open>Data model of the scene mirror (lib/index.ts)\<close>

text \<open>
  The controller class \<open>Graphics\<close> keeps an identity table, a free list, a counter, a
  texture cache, a command queue and a Float32Array view over the shared buffer. The
  objects it is handed (three.js \<open>Object3D\<close> trees) live on the JavaScript heap; an
  object is named by its heap reference, and the one heap field the class writes,
  \<open>userData.meshId\<close>, is kept in the state as a store from references to identities.
\<close>

type_synonym ref = nat

text \<open>The result of \<open>instanceof\<close> against the classes the code tests for.\<close>

datatype kind = Mesh | Points | Sprite | Light | Camera | Group

text \<open>
  A three.js \<open>Texture\<close>: its \<open>uuid\<close> and its \<open>image\<close>. \<open>image = None\<close> stands for a
  texture whose image is absent or unreadable: \<open>const { width, height } = image\<close> (or the
  canvas calls after it) throw. \<open>addObjectToScene\<close> itself deletes \<open>image\<close> from the
  textures of a material it has serialized, so such textures do occur.
\<close>

record texture =
  uuid :: string
  image :: "(nat \<times> nat) option"

text \<open>The two material slots \<open>extractMaterialTextures\<close> reads.\<close>

record material =
  mapTex :: "texture option"
  alphaMap :: "texture option"

text \<open>
  \<open>node.material\<close>: absent (\<open>'material' in node\<close> is false, as for a light), one
  \<open>Material\<close>, or an array of them.
\<close>

datatype material_slot = NoMaterial | Single material | Multi "material list"

datatype object3d =
  Object3D (ref: ref) (kind: kind) (material: material_slot) (children: "object3d list")

text \<open>\<open>IGraphicsCommand\<close>, with the opaque payloads (canvas, buffer, pixels) left out.\<close>

datatype command =
    InitCmd
  | ResizeCmd real real real
  | UploadTextureCmd string nat nat bool
  | AddObjectCmd object3d nat bool
  | RemoveObjectCmd nat
  | UpdateMaterialCmd material "nat option"

text \<open>The four injected logging functions; a call is recorded with its payload.\<close>

datatype hook = Log | Report | WorkerLog | WorkerReport

datatype error = TypeError

datatype outcome = Returned | Threw error

record graphics =
  idToObject :: "(nat \<times> ref) list"
  availableObjectIds :: "nat list"
  objectId :: nat
  textureCache :: "string set"
  commandQueue :: "command list"
  array :: "real list"
  camera :: ref
  posted :: "command list"
  hookCalls :: "(hook \<times> string) list"
  meshId :: "ref \<Rightarrow> nat option"

text \<open>
  \<open>idToObject\<close> is a JavaScript \<open>Map\<close>: an association list in insertion order, where
  \<open>set\<close> replaces the value of a key already present (\<open>AList.update\<close>) and
  \<open>delete\<close> removes the key (\<open>AList.delete\<close>). \<open>posted\<close> is the sequence of messages
  handed to \<open>worker.postMessage\<close>, \<open>hookCalls\<close> the sequence of calls of the injected
  logging functions.
\<close>

definition bytesPerElement :: nat where
  "bytesPerElement = 4"

definition elementsPerTransform :: nat where
  "elementsPerTransform = 16"

definition maxEntityCount :: nat where
  "maxEntityCount = 1024"

definition bufferSize :: nat where
  "bufferSize = bytesPerElement * elementsPerTransform * maxEntityCount"

text \<open>
  The state the constructor leaves, in a host that has \<open>SharedArrayBuffer\<close> (in one
  that has not, the constructor reports and then fails at \<open>new SharedArrayBuffer\<close>, and
  there is no instance): \<open>new Float32Array(new SharedArrayBuffer(bufferSize))\<close> is
  zero-filled and has one element per four bytes. The constructor logs the module URL
  through \<open>log\<close>. The arguments are that URL and the reference of the camera object
  the instance creates.
\<close>

definition Graphics :: "string \<Rightarrow> ref \<Rightarrow> graphics" where
  "Graphics url cam =
     \<lparr> idToObject = [], availableObjectIds = [], objectId = 0, textureCache = {},
       commandQueue = [], array = replicate (bufferSize div bytesPerElement) 0,
       camera = cam, posted = [], hookCalls = [(Log, url)], meshId = (\<lambda>_. None) \<rparr>"

section \<open>Command channel\<close>

text \<open>
  \<open>submitCommand(cmd, immediate, transfer)\<close>: the transfer list only moves ownership of
  a payload and is not modelled.
\<close>

definition submitCommand :: "command \<Rightarrow> bool \<Rightarrow> graphics \<Rightarrow> graphics" where
  "submitCommand cmd immediate s =
     (if immediate then s\<lparr>posted := posted s @ [cmd]\<rparr>
      else s\<lparr>commandQueue := commandQueue s @ [cmd]\<rparr>)"

definition postMessage :: "command \<Rightarrow> graphics \<Rightarrow> graphics" where
  "postMessage cmd s = s\<lparr>posted := posted s @ [cmd]\<rparr>"

definition flushCommands :: "graphics \<Rightarrow> graphics" where
  "flushCommands s = (fold postMessage (commandQueue s) s)\<lparr>commandQueue := []\<rparr>"

section \<open>Entity identity table\<close>

definition callHook :: "hook \<Rightarrow> string \<Rightarrow> graphics \<Rightarrow> graphics" where
  "callHook h payload s = s\<lparr>hookCalls := hookCalls s @ [(h, payload)]\<rparr>"

definition report :: "string \<Rightarrow> graphics \<Rightarrow> graphics" where
  "report msg s = callHook Report msg s"

definition capacityMessage :: string where
  "capacityMessage = ''exceeded maximum object count: 1024''"

text \<open>
  \<open>assignIdToObject\<close>: \<open>shift()\<close> takes the head of the free list; otherwise the counter
  is used and incremented, with a report once it exceeds \<open>maxEntityCount\<close>.
\<close>

definition assignIdToObject :: "ref \<Rightarrow> graphics \<Rightarrow> nat \<times> graphics" where
  "assignIdToObject obj s =
     (let (i, s1) =
        (case availableObjectIds s of
           r # rest \<Rightarrow> (r, s\<lparr>availableObjectIds := rest\<rparr>)
         | [] \<Rightarrow>
            (let s' = s\<lparr>objectId := objectId s + 1\<rparr>
             in (objectId s,
                 if objectId s' > maxEntityCount then report capacityMessage s' else s')))
      in (i, s1\<lparr>idToObject := AList.update i obj (idToObject s1),
                meshId := (meshId s1)(obj := Some i)\<rparr>))"

text \<open>
  \<open>object.traverse(callback)\<close> calls the callback on the object, then traverses each
  child: the nodes in pre-order.
\<close>

fun nodes :: "object3d \<Rightarrow> object3d list" where
  "nodes (Object3D r k m cs) = Object3D r k m cs # concat (map nodes cs)"

text \<open>
  The callback of \<open>removeObjectFromScene\<close>. \<open>if (node.userData.meshId)\<close> is false for
  an absent identity and for identity 0. \<open>userData.meshId\<close> is left as it is.
\<close>

definition removeNode :: "object3d \<Rightarrow> graphics \<Rightarrow> graphics" where
  "removeNode node s =
     (case meshId s (ref node) of
        None \<Rightarrow> s
      | Some i \<Rightarrow>
          if i = 0 then s
          else (let s1 = submitCommand (RemoveObjectCmd i) False s
                in s1\<lparr>idToObject := AList.delete i (idToObject s1),
                      availableObjectIds := availableObjectIds s1 @ [i]\<rparr>))"

definition removeObjectFromScene :: "object3d \<Rightarrow> graphics \<Rightarrow> graphics" where
  "removeObjectFromScene obj s = fold removeNode (nodes obj) s"

section \<open>Texture upload and the dedup cache\<close>

text \<open>
  A call either returns or throws; what it did to the state before throwing stays done,
  so the state is returned in both cases.
\<close>

definition then_do ::
  "outcome \<times> graphics \<Rightarrow> (graphics \<Rightarrow> outcome \<times> graphics) \<Rightarrow> outcome \<times> graphics" where
  "then_do r f = (case r of (Returned, s) \<Rightarrow> f s | (Threw e, s) \<Rightarrow> (Threw e, s))"

fun forEach ::
  "('a \<Rightarrow> graphics \<Rightarrow> outcome \<times> graphics) \<Rightarrow> 'a list \<Rightarrow> graphics \<Rightarrow> outcome \<times> graphics" where
  "forEach f [] s = (Returned, s)"
| "forEach f (x # xs) s = then_do (f x s) (forEach f xs)"

text \<open>
  \<open>uploadTexture\<close>: the early return on a cached uuid comes first; reading the image
  throws when there is none; then the uuid is added to the cache and the command queued.
\<close>

definition uploadTexture :: "texture \<Rightarrow> bool \<Rightarrow> graphics \<Rightarrow> outcome \<times> graphics" where
  "uploadTexture tex ui s =
     (if uuid tex \<in> textureCache s then (Returned, s)
      else (case image tex of
              None \<Rightarrow> (Threw TypeError, s)
            | Some (width, height) \<Rightarrow>
                (Returned,
                 submitCommand (UploadTextureCmd (uuid tex) width height ui) False
                   (s\<lparr>textureCache := insert (uuid tex) (textureCache s)\<rparr>))))"

definition extractMaterialTextures :: "material \<Rightarrow> bool \<Rightarrow> graphics \<Rightarrow> outcome \<times> graphics" where
  "extractMaterialTextures mat ui s =
     then_do (case mapTex mat of None \<Rightarrow> (Returned, s) | Some t \<Rightarrow> uploadTexture t ui s)
       (\<lambda>s1. case alphaMap mat of None \<Rightarrow> (Returned, s1) | Some t \<Rightarrow> uploadTexture t ui s1)"

section \<open>Scene mirror\<close>

text \<open>
  \<open>addObjectToScene\<close>: every node that is a mesh, points, sprite or light gets an
  identity, has the textures of its materials extracted, and is announced by one
  \<open>addObject\<close> command carrying its serialization (here the node itself). Attaching
  the object to the scene graph and deleting the images of the material's textures act on
  the heap outside this state.
\<close>

definition isRenderable :: "kind \<Rightarrow> bool" where
  "isRenderable k = (k = Mesh \<or> k = Points \<or> k = Sprite \<or> k = Light)"

definition addNode :: "bool \<Rightarrow> object3d \<Rightarrow> graphics \<Rightarrow> outcome \<times> graphics" where
  "addNode ui node s =
     (if isRenderable (kind node) then
        (let (i, s1) = assignIdToObject (ref node) s
         in then_do
              (case material node of
                 NoMaterial \<Rightarrow> (Returned, s1)
               | Single m \<Rightarrow> extractMaterialTextures m ui s1
               | Multi ms \<Rightarrow> forEach (\<lambda>m. extractMaterialTextures m ui) ms s1)
              (\<lambda>s2. (Returned, submitCommand (AddObjectCmd node i ui) False s2)))
      else (Returned, s))"

definition addObjectToScene :: "object3d \<Rightarrow> bool \<Rightarrow> graphics \<Rightarrow> outcome \<times> graphics" where
  "addObjectToScene obj ui s = forEach (addNode ui) (nodes obj) s"

text \<open>
  \<open>updateMaterial\<close> treats \<open>node.material\<close> as one \<open>Material\<close>. On an array the
  destructuring finds no textures and \<open>toJSON\<close> is not a function; on an absent material
  the destructuring throws.
\<close>

definition updateNode :: "bool \<Rightarrow> object3d \<Rightarrow> graphics \<Rightarrow> outcome \<times> graphics" where
  "updateNode ui node s =
     (if kind node = Mesh \<or> kind node = Sprite then
        (case material node of
           Single m \<Rightarrow>
             then_do (extractMaterialTextures m ui s)
               (\<lambda>s1. (Returned,
                  submitCommand (UpdateMaterialCmd m (meshId s1 (ref node))) False s1))
         | Multi ms \<Rightarrow> (Threw TypeError, s)
         | NoMaterial \<Rightarrow> (Threw TypeError, s))
      else (Returned, s))"

definition updateMaterial :: "object3d \<Rightarrow> bool \<Rightarrow> graphics \<Rightarrow> outcome \<times> graphics" where
  "updateMaterial obj ui s = forEach (updateNode ui) (nodes obj) s"

text \<open>
  \<open>init\<close>: the camera is given an identity (0 in a new instance), \<open>init\<close> is sent at
  once and the first \<open>resize\<close> is queued; the window's resize listener queues further
  ones. The arguments are the window's size and pixel ratio; finding or creating the
  canvas is outside this state.
\<close>

definition init :: "real \<Rightarrow> real \<Rightarrow> real \<Rightarrow> graphics \<Rightarrow> graphics" where
  "init width height pixelRatio s =
     (let (i, s1) = assignIdToObject (camera s) s
      in submitCommand (ResizeCmd width height pixelRatio) False
           (submitCommand InitCmd True s1))"

definition onResize :: "real \<Rightarrow> real \<Rightarrow> real \<Rightarrow> graphics \<Rightarrow> graphics" where
  "onResize width height pixelRatio s =
     submitCommand (ResizeCmd width height pixelRatio) False s"

section \<open>Transform buffer, writing side\<close>

text \<open>
  A store into a \<open>Float32Array\<close> rounds the number to single precision (\<open>fround\<close>, a
  parameter here) and is dropped when the index is not below the length.
\<close>

definition f32_store :: "(real \<Rightarrow> real) \<Rightarrow> real list \<Rightarrow> nat \<Rightarrow> real \<Rightarrow> real list" where
  "f32_store fround a idx v = (if idx < length a then a[idx := fround v] else a)"

text \<open>
  A three.js \<open>Matrix4\<close> is its \<open>elements\<close> array of 16 numbers, which three.js keeps in
  column-major order: \<open>Matrix4.set\<close> stores the entry of row \<open>r\<close>, column \<open>c\<close>
  (counted from 0) at \<open>elements[4 * c + r]\<close>.
\<close>

type_synonym matrix4 = "real list"

definition entry :: "matrix4 \<Rightarrow> nat \<Rightarrow> nat \<Rightarrow> real" where
  "entry m r c = m ! (4 * c + r)"

definition writeRecord :: "(real \<Rightarrow> real) \<Rightarrow> matrix4 \<Rightarrow> nat \<Rightarrow> real list \<Rightarrow> real list" where
  "writeRecord fround elements offset a =
     fold (\<lambda>i a. f32_store fround a (offset + i) (elements ! i)) [0..<elementsPerTransform] a"

text \<open>
  \<open>writeTransformsToArray\<close>: \<open>writeTransform\<close> is the body of its loop over the
  table, \<open>writeRecord\<close> the inner loop over the 16 elements; \<open>matrixWorld\<close> gives
  each object's world matrix as \<open>scene.updateMatrixWorld()\<close> has left it.
\<close>

definition writeTransform ::
  "(real \<Rightarrow> real) \<Rightarrow> (ref \<Rightarrow> matrix4) \<Rightarrow> nat \<times> ref \<Rightarrow> real list \<Rightarrow> real list" where
  "writeTransform fround matrixWorld e a =
     (case e of (i, obj) \<Rightarrow> writeRecord fround (matrixWorld obj) (i * elementsPerTransform) a)"

definition writeTransformsToArray ::
  "(real \<Rightarrow> real) \<Rightarrow> (ref \<Rightarrow> matrix4) \<Rightarrow> graphics \<Rightarrow> graphics" where
  "writeTransformsToArray fround matrixWorld s =
     s\<lparr>array := fold (writeTransform fround matrixWorld) (idToObject s) (array s)\<rparr>"

definition update :: "(real \<Rightarrow> real) \<Rightarrow> (ref \<Rightarrow> matrix4) \<Rightarrow> graphics \<Rightarrow> graphics" where
  "update fround matrixWorld s = writeTransformsToArray fround matrixWorld (flushCommands s)"

section \<open>Back-channel\<close>

datatype backMessage = BackMessage (type_of: string) (message_of: string)

text \<open>\<open>worker.onmessage\<close> of lib/index.ts.\<close>

definition onmessage :: "backMessage \<Rightarrow> graphics \<Rightarrow> graphics" where
  "onmessage d s =
     (if type_of d = ''log'' then callHook WorkerLog (message_of d) s
      else if type_of d = ''report'' then callHook WorkerReport (message_of d) s
      else report (''Unknown message type '' @ type_of d) s)"

text \<open>The older copy of the class (second part of lib/commands.ts, and dist/index.es.js).\<close>

definition onmessage_variant :: "backMessage \<Rightarrow> graphics \<Rightarrow> graphics" where
  "onmessage_variant d s =
     (if type_of d = ''log'' then callHook WorkerLog (message_of d) s
      else report (''Unknown message type '' @ type_of d) s)"

section \<open>Transform buffer, reading side (lib/backend.three.ts)\<close>

text \<open>
  A read of a \<open>Float32Array\<close> outside its length gives \<open>undefined\<close> (\<open>None\<close>), so the
  elements of the matrix \<open>fromArray\<close> builds are numbers or \<open>undefined\<close>.
\<close>

record backend =
  backendIdToObject :: "(nat \<times> ref) list"
  objectMatrix :: "ref \<Rightarrow> real option list"

definition f32_load :: "real list \<Rightarrow> nat \<Rightarrow> real option" where
  "f32_load a idx = (if idx < length a then Some (a ! idx) else None)"

definition fromArray :: "real list \<Rightarrow> nat \<Rightarrow> real option list" where
  "fromArray a offset = map (\<lambda>i. f32_load a (i + offset)) [0..<16]"

definition makeScale :: "real \<Rightarrow> real \<Rightarrow> real \<Rightarrow> real option list" where
  "makeScale x y z = map Some [x, 0, 0, 0,  0, y, 0, 0,  0, 0, z, 0,  0, 0, 0, 1]"

definition readTransform :: "real list \<Rightarrow> nat \<Rightarrow> real option list" where
  "readTransform transformArray i =
     (let matrix = fromArray transformArray (i * elementsPerTransform)
      in if matrix ! 0 = Some 0 then makeScale 0.1 0.1 0.1 else matrix)"

definition applyTransform :: "real list \<Rightarrow> nat \<times> ref \<Rightarrow> backend \<Rightarrow> backend" where
  "applyTransform transformArray e b =
     (case e of (i, obj) \<Rightarrow>
        b\<lparr>objectMatrix := (objectMatrix b)(obj := readTransform transformArray i)\<rparr>)"

definition readTransformsFromArray :: "real list \<Rightarrow> backend \<Rightarrow> backend" where
  "readTransformsFromArray transformArray b =
     fold (applyTransform transformArray) (backendIdToObject b) b"

section \<open>Vocabulary of the properties\<close>

subsection \<open>Sequences of allocations and releases\<close>

datatype alloc_op = Allocate ref | Release object3d

fun apply_op :: "alloc_op \<Rightarrow> graphics \<Rightarrow> graphics" where
  "apply_op (Allocate obj) s = snd (assignIdToObject obj s)"
| "apply_op (Release obj) s = removeObjectFromScene obj s"

definition run :: "alloc_op list \<Rightarrow> graphics \<Rightarrow> graphics" where
  "run ops s = fold apply_op ops s"

text \<open>The identities assigned: the keys of the table.\<close>

definition assigned :: "graphics \<Rightarrow> nat set" where
  "assigned s = fst ` set (idToObject s)"

text \<open>
  A release is of an outstanding allocation when the identity it pushes onto the free
  list is assigned at that moment. A node without identity or with identity 0 releases
  nothing. The nodes of a traversal are checked one after the other, each in the state
  its predecessors have left, and so are the operations of a sequence.
\<close>

definition node_outstanding :: "object3d \<Rightarrow> graphics \<Rightarrow> bool" where
  "node_outstanding node s =
     (case meshId s (ref node) of None \<Rightarrow> True | Some i \<Rightarrow> i = 0 \<or> i \<in> assigned s)"

fun nodes_outstanding :: "object3d list \<Rightarrow> graphics \<Rightarrow> bool" where
  "nodes_outstanding [] s = True"
| "nodes_outstanding (n # ns) s =
     (node_outstanding n s \<and> nodes_outstanding ns (removeNode n s))"

fun releases_outstanding :: "alloc_op list \<Rightarrow> graphics \<Rightarrow> bool" where
  "releases_outstanding [] s = True"
| "releases_outstanding (Allocate obj # ops) s =
     releases_outstanding ops (apply_op (Allocate obj) s)"
| "releases_outstanding (Release obj # ops) s =
     (nodes_outstanding (nodes obj) s \<and> releases_outstanding ops (apply_op (Release obj) s))"

text \<open>
  The invariant of the allocator under that discipline: no identity twice in the table
  or in the free list, none in both, and the two together are the identities below the
  counter.
\<close>

definition alloc_inv :: "graphics \<Rightarrow> bool" where
  "alloc_inv s =
     (distinct (map fst (idToObject s)) \<and> distinct (availableObjectIds s)
      \<and> set (availableObjectIds s) \<inter> assigned s = {}
      \<and> set (availableObjectIds s) \<union> assigned s = {..<objectId s})"

text \<open>
  What holds of the table whatever is called: its keys are distinct, and every identity
  in the table, in the free list or in an object's \<open>userData.meshId\<close> is below the
  counter. \<open>tableview\<close> collects the fields this depends on.
\<close>

definition table_inv :: "graphics \<Rightarrow> bool" where
  "table_inv s =
     (distinct (map fst (idToObject s))
      \<and> (\<forall>i \<in> assigned s \<union> set (availableObjectIds s). i < objectId s)
      \<and> (\<forall>r i. meshId s r = Some i \<longrightarrow> i < objectId s))"

definition tableview ::
  "graphics \<Rightarrow> (nat \<times> ref) list \<times> nat list \<times> nat \<times> (ref \<Rightarrow> nat option)" where
  "tableview s = (idToObject s, availableObjectIds s, objectId s, meshId s)"

text \<open>Allocating for each object of a list in turn.\<close>

definition allocateAll :: "ref list \<Rightarrow> graphics \<Rightarrow> graphics" where
  "allocateAll objs s = fold (\<lambda>obj s. snd (assignIdToObject obj s)) objs s"


text \<open>The identities a traversal of the given nodes releases: the non-zero ones, in order.\<close>

definition releasedIds :: "object3d list \<Rightarrow> graphics \<Rightarrow> nat list" where
  "releasedIds ns s =
     concat (map (\<lambda>n. case meshId s (ref n) of None \<Rightarrow> [] | Some i \<Rightarrow> if i = 0 then [] else [i]) ns)"

subsection \<open>The calls of a lifetime\<close>

text \<open>
  The calls an instance receives: its public methods, the window's resize event and the
  worker's messages. A call that throws leaves the instance in the state it had reached.
\<close>

datatype call =
    CallInit real real real
  | CallResize real real real
  | CallAdd object3d bool
  | CallUpdateMaterial object3d bool
  | CallRemove object3d
  | CallFlush
  | CallUpdate "real \<Rightarrow> real" "ref \<Rightarrow> matrix4"
  | CallMessage backMessage

fun step :: "call \<Rightarrow> graphics \<Rightarrow> graphics" where
  "step (CallInit w h p) s = init w h p s"
| "step (CallResize w h p) s = onResize w h p s"
| "step (CallAdd obj ui) s = snd (addObjectToScene obj ui s)"
| "step (CallUpdateMaterial obj ui) s = snd (updateMaterial obj ui s)"
| "step (CallRemove obj) s = removeObjectFromScene obj s"
| "step CallFlush s = flushCommands s"
| "step (CallUpdate fround matrixWorld) s = update fround matrixWorld s"
| "step (CallMessage d) s = onmessage d s"

definition lifetime :: "call list \<Rightarrow> graphics \<Rightarrow> graphics" where
  "lifetime calls s = fold step calls s"

text \<open>
  The \<open>uploadTexture\<close> commands for a texture identifier among all commands handed to
  the channel so far, posted or still queued. \<open>texview\<close> collects what the dedup
  property depends on, \<open>dedup\<close> is the property for one identifier.
\<close>

definition isUploadOf :: "string \<Rightarrow> command \<Rightarrow> bool" where
  "isUploadOf T c = (case c of UploadTextureCmd u w h ui \<Rightarrow> u = T | _ \<Rightarrow> False)"

definition uploads :: "string \<Rightarrow> graphics \<Rightarrow> command list" where
  "uploads T s = filter (isUploadOf T) (posted s @ commandQueue s)"

definition texview :: "graphics \<Rightarrow> string set \<times> (string \<Rightarrow> command list)" where
  "texview s = (textureCache s, \<lambda>T. uploads T s)"

definition dedup :: "string \<Rightarrow> graphics \<Rightarrow> bool" where
  "dedup T s = (length (uploads T s) = (if T \<in> textureCache s then 1 else 0))"

subsection \<open>Records of the transform buffer\<close>

text \<open>The indices of the record of an identity.\<close>

definition recordSlots :: "nat \<Rightarrow> nat list" where
  "recordSlots i = map (\<lambda>k. i * elementsPerTransform + k) [0..<elementsPerTransform]"

subsection \<open>Example inputs\<close>

text \<open>
  A childless object; the scene after \<open>init\<close> and the registration of one mesh (the
  camera is object 0 with identity 0, the mesh object 1 with identity 1); seven objects
  with the identities 0 to 6; a texture \<open>T\<close> with or without image and a mesh whose
  material refers to it; a matrix with the elements 0 to 15; the record of a quarter
  turn about the z axis; a renderer that knows object 7 under identity 0.
\<close>

definition leaf :: "ref \<Rightarrow> kind \<Rightarrow> object3d" where
  "leaf r k = Object3D r k NoMaterial []"

definition exampleScene :: graphics where
  "exampleScene = snd (addObjectToScene (leaf 1 Mesh) False (init 800 600 1 (Graphics [] 0)))"


definition textureT :: "(nat \<times> nat) option \<Rightarrow> texture" where
  "textureT img = \<lparr>uuid = ''T'', image = img\<rparr>"

definition meshWith :: "texture \<Rightarrow> object3d" where
  "meshWith t = Object3D 1 Mesh (Single \<lparr>mapTex = Some t, alphaMap = None\<rparr>) []"

definition countingMatrix :: matrix4 where
  "countingMatrix = map real [0..<16]"

definition quarterTurn :: "real list" where
  "quarterTurn = [0, 1, 0, 0,  -1, 0, 0, 0,  0, 0, 1, 0,  0, 0, 0, 1]"

definition exampleBackend :: backend where
  "exampleBackend = \<lparr>backendIdToObject = [(0, 7)], objectMatrix = (\<lambda>_. [])\<rparr>"

section \<open>Properties of the command channel\<close>

lemma fold_postMessage_other:
  "fold postMessage cmds s = s\<lparr>posted := posted s @ cmds\<rparr>"
  by (induction cmds arbitrary: s) (simp_all add: postMessage_def)

text \<open>
  C6. \<open>flushCommands\<close> hands every queued command to the renderer exactly once, in
  queue order, after what was posted before, and leaves the queue empty and everything
  else as it was. A non-immediate \<open>submitCommand\<close> appends the command at the tail of
  the queue and posts nothing; so commands submitted one after the other and then
  flushed arrive in submission order.
\<close>

theorem flushCommands_delivers_queue_in_order:
  "flushCommands s = s\<lparr>posted := posted s @ commandQueue s, commandQueue := []\<rparr>
   \<and> posted (flushCommands s) = posted s @ commandQueue s
   \<and> commandQueue (flushCommands s) = []
   \<and> submitCommand cmd False s = s\<lparr>commandQueue := commandQueue s @ [cmd]\<rparr>
   \<and> posted (submitCommand cmd False s) = posted s
   \<and> posted (flushCommands (fold (\<lambda>c. submitCommand c False) cmds s))
       = posted s @ commandQueue s @ cmds"
proof -
  have q: "fold (\<lambda>c. submitCommand c False) cmds s
           = s\<lparr>commandQueue := commandQueue s @ cmds\<rparr>"
    by (induction cmds arbitrary: s) (simp_all add: submitCommand_def)
  show ?thesis
    by (simp add: flushCommands_def fold_postMessage_other submitCommand_def q)
qed

section \<open>Properties of the identity table\<close>

lemma alloc_inv_Graphics: "alloc_inv (Graphics url cam)"
  by (simp add: alloc_inv_def Graphics_def assigned_def)

lemma alloc_inv_assign:
  assumes "alloc_inv s"
  shows "alloc_inv (snd (assignIdToObject obj s))"
proof (cases "availableObjectIds s")
  case Nil
  with assms show ?thesis
    by (auto simp: alloc_inv_def assigned_def assignIdToObject_def Let_def report_def callHook_def
        AList.distinct_update AList.dom_update lessThan_Suc)
next
  case (Cons r rest)
  with assms show ?thesis
    by (auto simp: alloc_inv_def assigned_def assignIdToObject_def Let_def
        AList.distinct_update AList.dom_update)
qed

lemma assigned_delete: "fst ` set (AList.delete i al) = fst ` set al - {i}"
proof -
  have "fst ` set (AList.delete i al) = set (map fst (AList.delete i al))" by simp
  also have "\<dots> = set (map fst al) - {i}" by (simp only: AList.delete_keys set_removeAll)
  finally show ?thesis by simp
qed

lemma alloc_inv_removeNode:
  assumes "alloc_inv s" "node_outstanding n s"
  shows "alloc_inv (removeNode n s)"
  using assms
  by (auto simp: alloc_inv_def assigned_def removeNode_def node_outstanding_def
      submitCommand_def Let_def AList.distinct_delete assigned_delete split: option.splits)

lemma alloc_inv_remove_nodes:
  "alloc_inv s \<Longrightarrow> nodes_outstanding ns s \<Longrightarrow> alloc_inv (fold removeNode ns s)"
  by (induction ns arbitrary: s) (simp_all add: alloc_inv_removeNode)

lemma alloc_inv_run:
  "alloc_inv s \<Longrightarrow> releases_outstanding ops s \<Longrightarrow> alloc_inv (run ops s)"
proof (induction ops arbitrary: s)
  case Nil
  then show ?case by (simp add: run_def)
next
  case (Cons op ops)
  then show ?case
    by (cases op)
      (simp_all add: run_def alloc_inv_assign alloc_inv_remove_nodes removeObjectFromScene_def)
qed

lemma releases_outstanding_take:
  "releases_outstanding ops s \<Longrightarrow> releases_outstanding (take n ops) s"
proof (induction ops arbitrary: s n)
  case Nil
  then show ?case by simp
next
  case (Cons op ops)
  then show ?case by (cases n; cases op) simp_all
qed

lemma assign_fresh:
  assumes "alloc_inv s"
  shows "fst (assignIdToObject obj s) \<notin> assigned s"
  using assms
  by (fastforce simp: alloc_inv_def assigned_def assignIdToObject_def Let_def split: list.splits)

lemma alloc_inv_counter:
  assumes "alloc_inv s"
  shows "length (idToObject s) + length (availableObjectIds s) = objectId s"
proof -
  have "card (set (availableObjectIds s) \<union> assigned s) = objectId s"
    using assms by (simp add: alloc_inv_def)
  moreover have "card (set (availableObjectIds s) \<union> assigned s)
      = card (set (availableObjectIds s)) + card (assigned s)"
    using assms by (intro card_Un_disjoint) (simp_all add: alloc_inv_def assigned_def)
  moreover have "card (set (availableObjectIds s)) = length (availableObjectIds s)"
    using assms by (simp add: alloc_inv_def distinct_card)
  moreover have "card (assigned s) = length (idToObject s)"
  proof -
    have "assigned s = set (map fst (idToObject s))" by (simp add: assigned_def)
    then show ?thesis using assms by (simp add: alloc_inv_def distinct_card del: set_map)
  qed
  ultimately show ?thesis by simp
qed

text \<open>
  C1. Take any sequence of allocations (\<open>assignIdToObject\<close>) and releases
  (\<open>removeObjectFromScene\<close>) in which every non-zero identity a release meets is
  assigned at that moment, that is, released at most once per outstanding allocation
  (\<open>releases_outstanding\<close>), started in a state that satisfies \<open>alloc_inv\<close>, as the
  constructor's state does. After every operation (every prefix of the sequence) the
  table holds no identity twice, so no two live objects hold the same identity; the
  free list has no duplicates and holds only identities that are not assigned; the free
  and the assigned identities are exactly those below the counter, so the counter's
  next value collides with neither; and the identity an allocation returns is not
  assigned at the time.
\<close>

theorem allocator_identities_unique:
  assumes "alloc_inv s" and "releases_outstanding ops s"
  shows "alloc_inv (run (take n ops) s)
     \<and> (\<forall>i o1 o2. (i, o1) \<in> set (idToObject (run (take n ops) s))
            \<and> (i, o2) \<in> set (idToObject (run (take n ops) s)) \<longrightarrow> o1 = o2)
     \<and> objectId (run (take n ops) s)
          \<notin> assigned (run (take n ops) s) \<union> set (availableObjectIds (run (take n ops) s))
     \<and> fst (assignIdToObject obj (run (take n ops) s)) \<notin> assigned (run (take n ops) s)"
proof -
  define s' where "s' = run (take n ops) s"
  have inv: "alloc_inv s'"
    unfolding s'_def using assms by (intro alloc_inv_run releases_outstanding_take)
  have d: "distinct (map fst (idToObject s'))"
    using inv by (simp add: alloc_inv_def)
  have inj: "\<forall>i o1 o2. (i, o1) \<in> set (idToObject s') \<and> (i, o2) \<in> set (idToObject s') \<longrightarrow> o1 = o2"
    using d by (meson eq_key_imp_eq_value)
  have fresh: "objectId s' \<notin> assigned s' \<union> set (availableObjectIds s')"
    using inv by (auto simp: alloc_inv_def)
  show ?thesis
    using inv inj fresh assign_fresh [OF inv] unfolding s'_def by blast
qed

text \<open>
  The constructor's state with four allocations and two releases, the second one of a
  group node with a child.
\<close>

theorem allocator_identities_unique_witness:
  "alloc_inv (Graphics [] 0)
   \<and> releases_outstanding
        [Allocate 0, Allocate 1, Allocate 2, Release (leaf 1 Mesh), Allocate 3,
         Release (Object3D 2 Group NoMaterial [leaf 3 Light])] (Graphics [] 0)
   \<and> alloc_inv (run (take 6
        [Allocate 0, Allocate 1, Allocate 2, Release (leaf 1 Mesh), Allocate 3,
         Release (Object3D 2 Group NoMaterial [leaf 3 Light])]) (Graphics [] 0))
   \<and> idToObject (run (take 6
        [Allocate 0, Allocate 1, Allocate 2, Release (leaf 1 Mesh), Allocate 3,
         Release (Object3D 2 Group NoMaterial [leaf 3 Light])]) (Graphics [] 0)) = [(0, 0)]
   \<and> availableObjectIds (run (take 6
        [Allocate 0, Allocate 1, Allocate 2, Release (leaf 1 Mesh), Allocate 3,
         Release (Object3D 2 Group NoMaterial [leaf 3 Light])]) (Graphics [] 0)) = [2, 1]"
proof -
  have h1: "alloc_inv (Graphics [] 0)"
    by (rule alloc_inv_Graphics)
  have h2: "releases_outstanding
        [Allocate 0, Allocate 1, Allocate 2, Release (leaf 1 Mesh), Allocate 3,
         Release (Object3D 2 Group NoMaterial [leaf 3 Light])] (Graphics [] 0)"
    by (simp add: Graphics_def assignIdToObject_def removeObjectFromScene_def removeNode_def
        submitCommand_def node_outstanding_def assigned_def leaf_def maxEntityCount_def)
  have e: "run (take 6
        [Allocate 0, Allocate 1, Allocate 2, Release (leaf 1 Mesh), Allocate 3,
         Release (Object3D 2 Group NoMaterial [leaf 3 Light])]) (Graphics [] 0)
       = (Graphics [] 0)\<lparr>idToObject := [(0, 0)], availableObjectIds := [2, 1], objectId := 3,
            commandQueue := [RemoveObjectCmd 1, RemoveObjectCmd 2, RemoveObjectCmd 1],
            meshId := (\<lambda>r. if r = 0 then Some 0 else if r = 1 then Some 1 else if r = 2 then Some 2
                else if r = 3 then Some 1 else None)\<rparr>"
    by (simp add: run_def Graphics_def assignIdToObject_def removeObjectFromScene_def removeNode_def
        submitCommand_def leaf_def maxEntityCount_def fun_eq_iff)
  have c3: "idToObject (run (take 6
        [Allocate 0, Allocate 1, Allocate 2, Release (leaf 1 Mesh), Allocate 3,
         Release (Object3D 2 Group NoMaterial [leaf 3 Light])]) (Graphics [] 0)) = [(0, 0)]"
    by (subst e) simp
  have c4: "availableObjectIds (run (take 6
        [Allocate 0, Allocate 1, Allocate 2, Release (leaf 1 Mesh), Allocate 3,
         Release (Object3D 2 Group NoMaterial [leaf 3 Light])]) (Graphics [] 0)) = [2, 1]"
    by (subst e) simp
  from allocator_identities_unique [OF h1 h2, of 6 0] h1 h2 c3 c4
  show ?thesis by blast
qed

lemma assign_counter:
  assumes "availableObjectIds s = []"
  shows "fst (assignIdToObject obj s) = objectId s"
    and "objectId (snd (assignIdToObject obj s)) = objectId s + 1"
    and "availableObjectIds (snd (assignIdToObject obj s)) = []"
    and "idToObject (snd (assignIdToObject obj s)) = AList.update (objectId s) obj (idToObject s)"
  using assms by (simp_all add: assignIdToObject_def Let_def report_def callHook_def)

lemma assign_hookCalls:
  "hookCalls (snd (assignIdToObject obj s)) =
     (if availableObjectIds s = [] \<and> maxEntityCount \<le> objectId s
      then hookCalls s @ [(Report, capacityMessage)] else hookCalls s)"
  by (auto simp: assignIdToObject_def Let_def report_def callHook_def split: list.splits)

lemma assign_array: "array (snd (assignIdToObject obj s)) = array s"
  by (simp add: assignIdToObject_def Let_def report_def callHook_def split: list.splits)


lemma assign_lookup:
  "map_of (idToObject (snd (assignIdToObject obj s))) (fst (assignIdToObject obj s)) = Some obj"
  by (simp add: assignIdToObject_def Let_def report_def callHook_def AList.update_conv'
      split: list.splits)

lemma allocateAll_fresh:
  assumes "availableObjectIds s = []"
  shows "availableObjectIds (allocateAll objs s) = []
     \<and> objectId (allocateAll objs s) = objectId s + length objs
     \<and> array (allocateAll objs s) = array s
     \<and> (objectId s + length objs \<le> maxEntityCount
          \<longrightarrow> hookCalls (allocateAll objs s) = hookCalls s)"
  using assms
proof (induction objs arbitrary: s)
  case Nil
  then show ?case by (simp add: allocateAll_def)
next
  case (Cons obj objs)
  have step: "allocateAll (obj # objs) s = allocateAll objs (snd (assignIdToObject obj s))"
    by (simp add: allocateAll_def)
  from Cons.prems have e: "availableObjectIds (snd (assignIdToObject obj s)) = []"
    by (rule assign_counter)
  from Cons.IH [OF e] Cons.prems show ?case
    by (auto simp: step assign_counter assign_hookCalls assign_array)
qed

lemma allocateAll_inv: "alloc_inv s \<Longrightarrow> alloc_inv (allocateAll objs s)"
  by (induction objs arbitrary: s) (simp_all add: allocateAll_def alloc_inv_assign)

subsection \<open>Removal\<close>

lemma removeNode_meshId: "meshId (removeNode n s) = meshId s"
  by (simp add: removeNode_def submitCommand_def Let_def split: option.splits)

lemma releasedIds_removeNode: "releasedIds ns (removeNode n s) = releasedIds ns s"
  by (simp add: releasedIds_def removeNode_meshId)

lemma releasedIds_Cons:
  "releasedIds (n # ns) s = releasedIds [n] s @ releasedIds ns s"
  by (simp add: releasedIds_def)

lemma removeNode_eq:
  "removeNode n s =
     s\<lparr>idToObject := fold AList.delete (releasedIds [n] s) (idToObject s),
       availableObjectIds := availableObjectIds s @ releasedIds [n] s,
       commandQueue := commandQueue s @ map RemoveObjectCmd (releasedIds [n] s)\<rparr>"
  by (simp add: removeNode_def releasedIds_def submitCommand_def Let_def
      split: option.splits)

lemma fold_removeNode_eq:
  "fold removeNode ns s =
     s\<lparr>idToObject := fold AList.delete (releasedIds ns s) (idToObject s),
       availableObjectIds := availableObjectIds s @ releasedIds ns s,
       commandQueue := commandQueue s @ map RemoveObjectCmd (releasedIds ns s)\<rparr>"
proof (induction ns arbitrary: s)
  case Nil
  show ?case by (simp add: releasedIds_def)
next
  case (Cons n ns)
  have "fold removeNode (n # ns) s = fold removeNode ns (removeNode n s)"
    by simp
  also have "\<dots> = (removeNode n s)
     \<lparr>idToObject := fold AList.delete (releasedIds ns s) (idToObject (removeNode n s)),
       availableObjectIds := availableObjectIds (removeNode n s) @ releasedIds ns s,
       commandQueue := commandQueue (removeNode n s) @ map RemoveObjectCmd (releasedIds ns s)\<rparr>"
    by (simp only: Cons.IH releasedIds_removeNode)
  also have "\<dots> = s\<lparr>idToObject := fold AList.delete (releasedIds (n # ns) s) (idToObject s),
       availableObjectIds := availableObjectIds s @ releasedIds (n # ns) s,
       commandQueue := commandQueue s @ map RemoveObjectCmd (releasedIds (n # ns) s)\<rparr>"
    by (subst (1 2 3 4) removeNode_eq, subst (1 2 3) releasedIds_Cons [of n ns]) simp
  finally show ?case .
qed

lemma keys_fold_delete:
  "fst ` set (fold AList.delete ids al) = fst ` set al - set ids"
  by (induction ids arbitrary: al) (auto simp: assigned_delete)

lemma fold_delete_absent:
  "set ids \<inter> fst ` set al = {} \<Longrightarrow> fold AList.delete ids al = al"
  by (induction ids arbitrary: al) auto

lemma fold_delete_idem:
  "fold AList.delete ids (fold AList.delete ids al) = fold AList.delete ids al"
  by (rule fold_delete_absent) (auto simp: keys_fold_delete)

text \<open>
  What a repeated removal does. \<open>removeObjectFromScene\<close> appends to the free list the
  non-zero identities of the object's nodes (\<open>releasedIds\<close>) and queues one
  \<open>removeObject\<close> command for each. It never clears \<open>userData.meshId\<close>, so a second
  call made right after the first leaves the identity table as it is, and the free list
  and the queue receive the same identities and the same commands a second time.
\<close>

lemma second_removal_repeats_release:
  "removeObjectFromScene obj (removeObjectFromScene obj s) =
     (removeObjectFromScene obj s)
       \<lparr>availableObjectIds :=
          availableObjectIds (removeObjectFromScene obj s) @ releasedIds (nodes obj) s,
        commandQueue :=
          commandQueue (removeObjectFromScene obj s)
            @ map RemoveObjectCmd (releasedIds (nodes obj) s)\<rparr>
   \<and> idToObject (removeObjectFromScene obj (removeObjectFromScene obj s))
       = idToObject (removeObjectFromScene obj s)
   \<and> availableObjectIds (removeObjectFromScene obj s)
       = availableObjectIds s @ releasedIds (nodes obj) s
   \<and> commandQueue (removeObjectFromScene obj s)
       = commandQueue s @ map RemoveObjectCmd (releasedIds (nodes obj) s)"
proof -
  let ?ids = "releasedIds (nodes obj) s"
  define s1 where "s1 = removeObjectFromScene obj s"
  have s1: "s1 = s\<lparr>idToObject := fold AList.delete ?ids (idToObject s),
       availableObjectIds := availableObjectIds s @ ?ids,
       commandQueue := commandQueue s @ map RemoveObjectCmd ?ids\<rparr>"
    by (simp only: s1_def removeObjectFromScene_def fold_removeNode_eq)
  have ids1: "releasedIds (nodes obj) s1 = ?ids"
    by (simp add: s1 releasedIds_def)
  have t: "fold AList.delete ?ids (idToObject s1) = idToObject s1"
    by (simp add: s1 fold_delete_idem)
  have s2: "removeObjectFromScene obj s1 =
      s1\<lparr>availableObjectIds := availableObjectIds s1 @ ?ids,
         commandQueue := commandQueue s1 @ map RemoveObjectCmd ?ids\<rparr>"
    by (simp add: removeObjectFromScene_def fold_removeNode_eq ids1 t)
  have "removeObjectFromScene obj s1 =
      s1\<lparr>availableObjectIds := availableObjectIds s1 @ ?ids,
         commandQueue := commandQueue s1 @ map RemoveObjectCmd ?ids\<rparr>
    \<and> idToObject (removeObjectFromScene obj s1) = idToObject s1
    \<and> availableObjectIds s1 = availableObjectIds s @ ?ids
    \<and> commandQueue s1 = commandQueue s @ map RemoveObjectCmd ?ids"
    by (simp add: s2) (simp add: s1)
  then show ?thesis
    unfolding s1_def .
qed

lemma exampleScene_eq:
  "exampleScene = (Graphics [] 0)
     \<lparr>idToObject := [(0, 0), (1, 1)], objectId := 2,
      commandQueue := [ResizeCmd 800 600 1, AddObjectCmd (leaf 1 Mesh) 1 False],
      posted := [InitCmd],
      meshId := (\<lambda>_. None)(0 := Some 0, 1 := Some 1)\<rparr>"
  by (simp add: exampleScene_def addObjectToScene_def addNode_def init_def Graphics_def
      assignIdToObject_def submitCommand_def leaf_def then_do_def isRenderable_def
      maxEntityCount_def)

subsection \<open>Calls that may throw\<close>

lemma then_do_preserves:
  assumes "\<And>s. g (snd (f s)) = g s"
  shows "g (snd (then_do r f)) = g (snd r)"
  using assms by (cases r) (simp add: then_do_def split: outcome.splits)

lemma forEach_preserves:
  assumes "\<And>x s. g (snd (f x s)) = g s"
  shows "g (snd (forEach f xs s)) = g s"
proof (induction xs arbitrary: s)
  case Nil
  show ?case by simp
next
  case (Cons x xs)
  have "g (snd (forEach f (x # xs) s)) = g (snd (f x s))"
    by (simp add: then_do_preserves [of g, OF Cons.IH])
  then show ?case by (simp add: assms)
qed

lemma then_do_inv:
  assumes "P (snd r)" and "\<And>s. P s \<Longrightarrow> P (snd (f s))"
  shows "P (snd (then_do r f))"
  using assms by (cases r) (auto simp: then_do_def split: outcome.splits)

lemma forEach_inv:
  assumes "\<And>x s. P s \<Longrightarrow> P (snd (f x s))"
  shows "P s \<Longrightarrow> P (snd (forEach f xs s))"
proof (induction xs arbitrary: s)
  case Nil
  then show ?case by simp
next
  case (Cons x xs)
  have "P (snd (then_do (f x s) (forEach f xs)))"
  proof (rule then_do_inv [where P = P])
    show "P (snd (f x s))"
      using Cons.prems by (rule assms)
  next
    fix s' assume "P s'"
    then show "P (snd (forEach f xs s'))"
      by (rule Cons.IH)
  qed
  then show ?case by simp
qed


subsection \<open>Reuse of released identities\<close>


lemma extract_preserves:
  assumes "\<And>t s. g (snd (uploadTexture t ui s)) = g s"
  shows "g (snd (extractMaterialTextures m ui s)) = g s"
proof -
  have a: "g (snd (case alphaMap m of None \<Rightarrow> (Returned, s1) | Some t \<Rightarrow> uploadTexture t ui s1)) = g s1"
    for s1 by (cases "alphaMap m") (simp_all add: assms)
  have b: "g (snd (case mapTex m of None \<Rightarrow> (Returned, s) | Some t \<Rightarrow> uploadTexture t ui s)) = g s"
    by (cases "mapTex m") (simp_all add: assms)
  show ?thesis
    unfolding extractMaterialTextures_def by (simp add: then_do_preserves [of g, OF a] b)
qed

















text \<open>
  C3. The claim asks that a second removal of an object already removed change neither
  the identity table, nor the free list, nor the command queue. The code falls short of
  it. At the scene of one mesh with identity 1, removing the mesh a second time queues a
  second \<open>removeObject\<close> command and puts identity 1 on the free list a second time;
  the next two registrations then both receive identity 1, and the second evicts the
  first from the table. This is against the header of the class file, which associates
  every object with a unique ID and recycles the ID of a deleted object, and against the
  comment on the free list, which is to hold recycled, unused IDs.
\<close>

theorem double_removal_shares_identity:
  "meshId exampleScene (ref (leaf 1 Mesh)) = Some 1
   \<and> availableObjectIds (removeObjectFromScene (leaf 1 Mesh) exampleScene) = [1]
   \<and> availableObjectIds
        (removeObjectFromScene (leaf 1 Mesh) (removeObjectFromScene (leaf 1 Mesh) exampleScene))
       = [1, 1]
   \<and> commandQueue (removeObjectFromScene (leaf 1 Mesh) exampleScene)
       = [ResizeCmd 800 600 1, AddObjectCmd (leaf 1 Mesh) 1 False, RemoveObjectCmd 1]
   \<and> commandQueue
        (removeObjectFromScene (leaf 1 Mesh) (removeObjectFromScene (leaf 1 Mesh) exampleScene))
       = [ResizeCmd 800 600 1, AddObjectCmd (leaf 1 Mesh) 1 False, RemoveObjectCmd 1,
          RemoveObjectCmd 1]
   \<and> meshId (lifetime [CallRemove (leaf 1 Mesh), CallRemove (leaf 1 Mesh),
          CallAdd (leaf 20 Mesh) False, CallAdd (leaf 21 Mesh) False] exampleScene) 20 = Some 1
   \<and> meshId (lifetime [CallRemove (leaf 1 Mesh), CallRemove (leaf 1 Mesh),
          CallAdd (leaf 20 Mesh) False, CallAdd (leaf 21 Mesh) False] exampleScene) 21 = Some 1
   \<and> idToObject (lifetime [CallRemove (leaf 1 Mesh), CallRemove (leaf 1 Mesh),
          CallAdd (leaf 20 Mesh) False, CallAdd (leaf 21 Mesh) False] exampleScene)
       = [(0, 0), (1, 21)]"
  by (simp add: exampleScene_eq Graphics_def leaf_def removeObjectFromScene_def removeNode_def
      submitCommand_def lifetime_def addObjectToScene_def addNode_def assignIdToObject_def
      then_do_def isRenderable_def maxEntityCount_def)

section \<open>Properties of the texture dedup cache\<close>

lemma texview_submit:
  assumes "\<And>T. \<not> isUploadOf T c"
  shows "texview (submitCommand c im s) = texview s"
  using assms by (simp add: texview_def uploads_def submitCommand_def fun_eq_iff)

lemma not_upload [simp]:
  "\<not> isUploadOf T InitCmd" "\<not> isUploadOf T (ResizeCmd w h p)" "\<not> isUploadOf T (AddObjectCmd n i ui)"
  "\<not> isUploadOf T (RemoveObjectCmd i)" "\<not> isUploadOf T (UpdateMaterialCmd m j)"
  by (simp_all add: isUploadOf_def)

lemma texview_assign: "texview (snd (assignIdToObject obj s)) = texview s"
  by (simp add: texview_def uploads_def assignIdToObject_def Let_def report_def callHook_def
      split: list.splits)

lemma texview_removeNode: "texview (removeNode n s) = texview s"
proof -
  have "texview (submitCommand (RemoveObjectCmd i) False s) = texview s" for i
    by (rule texview_submit) simp
  then show ?thesis
    by (simp add: removeNode_def Let_def texview_def uploads_def split: option.splits)
qed

lemma texview_remove: "texview (removeObjectFromScene obj s) = texview s"
proof -
  have "texview (fold removeNode ns s) = texview s" for ns
    by (induction ns arbitrary: s) (simp_all add: texview_removeNode)
  then show ?thesis by (simp add: removeObjectFromScene_def)
qed

lemma texview_flush: "texview (flushCommands s) = texview s"
  by (simp add: texview_def uploads_def flushCommands_def fold_postMessage_other)

lemma texview_update: "texview (update fr mw s) = texview s"
  using texview_flush [of s]
  by (simp add: texview_def uploads_def update_def writeTransformsToArray_def)

lemma texview_onmessage: "texview (onmessage d s) = texview s"
  by (simp add: texview_def uploads_def onmessage_def callHook_def report_def)

lemma texview_onResize: "texview (onResize w h p s) = texview s"
  unfolding onResize_def by (rule texview_submit) simp

lemma texview_init: "texview (init w h p s) = texview s"
proof -
  obtain i s1 where a: "assignIdToObject (camera s) s = (i, s1)"
    by (cases "assignIdToObject (camera s) s")
  have "texview s1 = texview s"
    using texview_assign [of "camera s" s] by (simp add: a)
  moreover have "texview (submitCommand (ResizeCmd w h p) False (submitCommand InitCmd True s1))
      = texview s1"
    by (simp add: texview_submit)
  ultimately show ?thesis
    by (simp add: init_def a)
qed

lemma step_texture_inv:
  assumes up: "\<And>t ui s. P s \<Longrightarrow> P (snd (uploadTexture t ui s))"
    and view: "\<And>s s'. texview s' = texview s \<Longrightarrow> P s \<Longrightarrow> P s'"
    and "P s"
  shows "P (step c s)"
proof -
  have ex: "P (snd (extractMaterialTextures m ui s))" if "P s" for m ui s
    unfolding extractMaterialTextures_def
    by (rule then_do_inv [where P = P]) (use that up in \<open>auto split: option.splits\<close>)
  have sub: "P (submitCommand c im s)" if "P s" "\<And>T. \<not> isUploadOf T c" for c im s
    using texview_submit [of c im s] that view by blast
  have add: "P (snd (addNode ui n s))" if p: "P s" for ui n s
  proof (cases "isRenderable (kind n)")
    case False
    with p show ?thesis by (simp add: addNode_def)
  next
    case True
    obtain i s1 where a: "assignIdToObject (ref n) s = (i, s1)"
      by (cases "assignIdToObject (ref n) s")
    have p1: "P s1"
      using texview_assign [of "ref n" s] p view by (simp add: a)
    have "P (snd (then_do
            (case material n of
               NoMaterial \<Rightarrow> (Returned, s1)
             | Single m \<Rightarrow> extractMaterialTextures m ui s1
             | Multi ms \<Rightarrow> forEach (\<lambda>m. extractMaterialTextures m ui) ms s1)
            (\<lambda>s2. (Returned, submitCommand (AddObjectCmd n i ui) False s2))))"
    proof (rule then_do_inv [where P = P])
      show "P (snd (case material n of
               NoMaterial \<Rightarrow> (Returned, s1)
             | Single m \<Rightarrow> extractMaterialTextures m ui s1
             | Multi ms \<Rightarrow> forEach (\<lambda>m. extractMaterialTextures m ui) ms s1))"
        using p1 ex forEach_inv [of P "\<lambda>m. extractMaterialTextures m ui"]
        by (cases "material n") simp_all
    next
      fix s2 assume "P s2"
      then show "P (snd (Returned, submitCommand (AddObjectCmd n i ui) False s2))"
        by (simp add: sub)
    qed
    with True show ?thesis by (simp add: addNode_def a)
  qed
  have upd: "P (snd (updateNode ui n s))" if p: "P s" for ui n s
  proof (cases "material n")
    case (Single m)
    have "P (snd (then_do (extractMaterialTextures m ui s)
            (\<lambda>s1. (Returned, submitCommand (UpdateMaterialCmd m (meshId s1 (ref n))) False s1))))"
      by (rule then_do_inv [where P = P]) (simp_all add: ex p sub)
    with p Single show ?thesis by (simp add: updateNode_def)
  qed (use p in \<open>simp_all add: updateNode_def\<close>)
  show ?thesis
  proof (cases c)
    case (CallAdd obj ui)
    then show ?thesis
      using forEach_inv [of P "addNode ui", OF add assms(3)] by (simp add: addObjectToScene_def)
  next
    case (CallUpdateMaterial obj ui)
    then show ?thesis
      using forEach_inv [of P "updateNode ui", OF upd assms(3)] by (simp add: updateMaterial_def)
  qed (use assms(3) view texview_init texview_onResize texview_remove texview_flush
        texview_update texview_onmessage in \<open>simp_all\<close>)
qed

lemma lifetime_texture_inv:
  assumes "\<And>t ui s. P s \<Longrightarrow> P (snd (uploadTexture t ui s))"
    and "\<And>s s'. texview s' = texview s \<Longrightarrow> P s \<Longrightarrow> P s'"
  shows "P s \<Longrightarrow> P (lifetime calls s)"
  unfolding lifetime_def
  by (induction calls arbitrary: s) (simp_all add: step_texture_inv [of P, OF assms])

lemma dedup_upload: "dedup T s \<Longrightarrow> dedup T (snd (uploadTexture t ui s))"
  by (auto simp: dedup_def uploads_def uploadTexture_def submitCommand_def isUploadOf_def
      split: option.splits)

lemma dedup_view: "texview s' = texview s \<Longrightarrow> dedup T s \<Longrightarrow> dedup T s'"
  by (auto simp: dedup_def texview_def fun_eq_iff)

lemma cache_upload: "C \<subseteq> textureCache s \<Longrightarrow> C \<subseteq> textureCache (snd (uploadTexture t ui s))"
  by (auto simp: uploadTexture_def submitCommand_def split: option.splits)

lemma cache_view: "texview s' = texview s \<Longrightarrow> C \<subseteq> textureCache s \<Longrightarrow> C \<subseteq> textureCache s'"
  by (simp add: texview_def)

text \<open>
  C5, as the code has it. In every state that a sequence of calls reaches from the
  constructor's, the commands handed to the channel so far (posted or still queued)
  hold exactly one \<open>uploadTexture\<close> command for a texture identifier that is in the
  cache and none for one that is not; no call removes an identifier from the cache. An
  extraction of an identifier that is not in the cache, with its image present, adds
  the identifier to the cache and queues one command for it; an extraction of an
  identifier in the cache changes nothing; an extraction of an identifier that is not in
  the cache, with no image, throws and changes nothing.
\<close>

theorem texture_uploaded_at_most_once:
  "length (uploads T (lifetime calls (Graphics url cam)))
     = (if T \<in> textureCache (lifetime calls (Graphics url cam)) then 1 else 0)
   \<and> textureCache s \<subseteq> textureCache (step c s)
   \<and> (uuid t \<notin> textureCache s \<and> image t = Some (w, h)
        \<longrightarrow> uploadTexture t ui s =
             (Returned, s\<lparr>textureCache := insert (uuid t) (textureCache s),
                          commandQueue := commandQueue s @ [UploadTextureCmd (uuid t) w h ui]\<rparr>))
   \<and> (uuid t \<in> textureCache s \<longrightarrow> uploadTexture t ui s = (Returned, s))
   \<and> (uuid t \<notin> textureCache s \<and> image t = None \<longrightarrow> uploadTexture t ui s = (Threw TypeError, s))"
proof -
  have d0: "dedup T (Graphics url cam)"
    by (simp add: dedup_def uploads_def Graphics_def)
  have "dedup T (lifetime calls (Graphics url cam))"
    by (rule lifetime_texture_inv [where P = "dedup T"]) (fact dedup_upload dedup_view d0)+
  then have c1: "length (uploads T (lifetime calls (Graphics url cam)))
     = (if T \<in> textureCache (lifetime calls (Graphics url cam)) then 1 else 0)"
    by (simp only: dedup_def)
  have c2: "textureCache s \<subseteq> textureCache (step c s)"
    by (rule step_texture_inv [where P = "\<lambda>s'. textureCache s \<subseteq> textureCache s'"])
      (fact cache_upload cache_view subset_refl)+
  have c3: "uuid t \<notin> textureCache s \<and> image t = Some (w, h)
        \<longrightarrow> uploadTexture t ui s =
             (Returned, s\<lparr>textureCache := insert (uuid t) (textureCache s),
                          commandQueue := commandQueue s @ [UploadTextureCmd (uuid t) w h ui]\<rparr>)"
    by (simp add: uploadTexture_def submitCommand_def)
  have c4: "uuid t \<in> textureCache s \<longrightarrow> uploadTexture t ui s = (Returned, s)"
    by (simp add: uploadTexture_def)
  have c5: "uuid t \<notin> textureCache s \<and> image t = None \<longrightarrow> uploadTexture t ui s = (Threw TypeError, s)"
    by (simp add: uploadTexture_def)
  from c1 c2 c3 c4 c5 show ?thesis
    by (intro conjI)
qed

lemma example_lifetime:
  "lifetime [CallInit 800 600 1, CallAdd (meshWith (textureT (Some (2, 2)))) False,
             CallUpdateMaterial (meshWith (textureT None)) False] (Graphics [] 0)
   = (Graphics [] 0)
     \<lparr>idToObject := [(0, 0), (1, 1)], objectId := 2, textureCache := {''T''},
      commandQueue := [ResizeCmd 800 600 1, UploadTextureCmd ''T'' 2 2 False,
        AddObjectCmd (meshWith (textureT (Some (2, 2)))) 1 False,
        UpdateMaterialCmd \<lparr>mapTex = Some (textureT None), alphaMap = None\<rparr> (Some 1)],
      posted := [InitCmd],
      meshId := (\<lambda>_. None)(0 := Some 0, 1 := Some 1)\<rparr>"
  by (simp add: lifetime_def init_def addObjectToScene_def addNode_def updateMaterial_def
      updateNode_def extractMaterialTextures_def uploadTexture_def then_do_def
      assignIdToObject_def submitCommand_def isRenderable_def meshWith_def textureT_def
      Graphics_def maxEntityCount_def)

theorem texture_uploaded_at_most_once_witness:
  "uuid (textureT (Some (2, 2))) \<notin> textureCache (Graphics [] 0)
   \<and> image (textureT (Some (2, 2))) = Some (2, 2)
   \<and> uploadTexture (textureT (Some (2, 2))) False (Graphics [] 0)
       = (Returned, (Graphics [] 0)\<lparr>textureCache := {''T''},
            commandQueue := [UploadTextureCmd ''T'' 2 2 False]\<rparr>)
   \<and> uuid (textureT None) \<in> textureCache ((Graphics [] 0)\<lparr>textureCache := {''T''}\<rparr>)
   \<and> uploadTexture (textureT None) False ((Graphics [] 0)\<lparr>textureCache := {''T''}\<rparr>)
       = (Returned, (Graphics [] 0)\<lparr>textureCache := {''T''}\<rparr>)
   \<and> image (textureT None) = None
   \<and> uploadTexture (textureT None) False (Graphics [] 0) = (Threw TypeError, Graphics [] 0)
   \<and> length (uploads ''T''
        (lifetime [CallInit 800 600 1, CallAdd (meshWith (textureT (Some (2, 2)))) False,
                   CallUpdateMaterial (meshWith (textureT None)) False] (Graphics [] 0))) = 1"
proof -
  let ?calls = "[CallInit 800 600 1, CallAdd (meshWith (textureT (Some (2, 2)))) False,
                   CallUpdateMaterial (meshWith (textureT None)) False]"
  have h1: "uuid (textureT (Some (2, 2))) \<notin> textureCache (Graphics [] 0)
      \<and> image (textureT (Some (2, 2))) = Some (2, 2)"
    by (simp add: textureT_def Graphics_def)
  have h2: "uuid (textureT None) \<in> textureCache ((Graphics [] 0)\<lparr>textureCache := {''T''}\<rparr>)"
    by (simp add: textureT_def)
  have h3: "uuid (textureT None) \<notin> textureCache (Graphics [] 0) \<and> image (textureT None) = None"
    by (simp add: textureT_def Graphics_def)
  have h4: "''T'' \<in> textureCache (lifetime ?calls (Graphics [] 0))"
    by (simp add: example_lifetime)
  have g: "textureCache (Graphics [] 0) = {}" "commandQueue (Graphics [] 0) = []"
    "uuid (textureT (Some (2, 2))) = ''T''"
    by (simp_all add: Graphics_def textureT_def)
  from texture_uploaded_at_most_once
    [of "''T''" ?calls "[]" 0 "Graphics [] 0" CallFlush "textureT (Some (2, 2))" 2 2 False] h1 h4
  have a: "uploadTexture (textureT (Some (2, 2))) False (Graphics [] 0)
       = (Returned, (Graphics [] 0)\<lparr>textureCache := {''T''},
            commandQueue := [UploadTextureCmd ''T'' 2 2 False]\<rparr>)
     \<and> length (uploads ''T'' (lifetime ?calls (Graphics [] 0))) = 1"
    by (simp add: g)
  from texture_uploaded_at_most_once
    [of "''T''" "[]" "[]" 0 "(Graphics [] 0)\<lparr>textureCache := {''T''}\<rparr>" CallFlush "textureT None" 0 0 False] h2
  have b: "uploadTexture (textureT None) False ((Graphics [] 0)\<lparr>textureCache := {''T''}\<rparr>)
       = (Returned, (Graphics [] 0)\<lparr>textureCache := {''T''}\<rparr>)"
    by blast
  from texture_uploaded_at_most_once
    [of "''T''" "[]" "[]" 0 "Graphics [] 0" CallFlush "textureT None" 0 0 False] h3
  have c: "uploadTexture (textureT None) False (Graphics [] 0) = (Threw TypeError, Graphics [] 0)"
    by blast
  from h1 h2 h3 a b c show ?thesis
    by blast
qed

text \<open>
  The claim at a texture without image (one still loading, or one whose image an earlier
  registration deleted): its first extraction throws, no \<open>uploadTexture\<close> command
  for it is emitted and it is not marked as seen.
\<close>

theorem imageless_texture_not_uploaded_counterexample:
  "fst (addObjectToScene (meshWith (textureT None)) False (Graphics [] 0)) = Threw TypeError
   \<and> uploads ''T'' (snd (addObjectToScene (meshWith (textureT None)) False (Graphics [] 0))) = []
   \<and> ''T'' \<notin> textureCache (snd (addObjectToScene (meshWith (textureT None)) False (Graphics [] 0)))"
  by (simp add: addObjectToScene_def addNode_def extractMaterialTextures_def uploadTexture_def
      then_do_def assignIdToObject_def isRenderable_def meshWith_def textureT_def uploads_def
      Graphics_def maxEntityCount_def)

section \<open>Capacity\<close>

lemma table_inv_view: "tableview s' = tableview s \<Longrightarrow> table_inv s \<Longrightarrow> table_inv s'"
  by (simp add: table_inv_def tableview_def assigned_def)

lemma table_inv_assign:
  assumes "table_inv s"
  shows "table_inv (snd (assignIdToObject obj s))"
proof (cases "availableObjectIds s")
  case Nil
  with assms show ?thesis
    by (auto simp: table_inv_def assigned_def assignIdToObject_def Let_def report_def callHook_def
        AList.distinct_update AList.dom_update less_Suc_eq)
next
  case (Cons r rest)
  with assms show ?thesis
    by (auto simp: table_inv_def assigned_def assignIdToObject_def Let_def
        AList.distinct_update AList.dom_update)
qed

lemma table_inv_removeNode:
  assumes "table_inv s"
  shows "table_inv (removeNode n s)"
proof (cases "meshId s (ref n)")
  case None
  with assms show ?thesis by (simp add: removeNode_def)
next
  case (Some i)
  have sub: "fst ` set (AList.delete i (idToObject s)) \<subseteq> fst ` set (idToObject s)"
    by (rule AList.dom_delete_subset)
  from assms Some have "i < objectId s"
    by (simp add: table_inv_def)
  with assms Some sub show ?thesis
    by (auto simp: table_inv_def assigned_def removeNode_def submitCommand_def Let_def
        AList.distinct_delete)
qed

lemma tableview_submit: "tableview (submitCommand c im s) = tableview s"
  by (simp add: tableview_def submitCommand_def)

lemma tableview_upload: "tableview (snd (uploadTexture t ui s)) = tableview s"
  by (simp add: tableview_def uploadTexture_def submitCommand_def split: option.splits)

lemma tableview_extract: "tableview (snd (extractMaterialTextures m ui s)) = tableview s"
  by (rule extract_preserves) (rule tableview_upload)

lemma table_inv_materials:
  "table_inv s \<Longrightarrow>
   table_inv (snd (case ms of NoMaterial \<Rightarrow> (Returned, s)
       | Single m \<Rightarrow> extractMaterialTextures m ui s
       | Multi l \<Rightarrow> forEach (\<lambda>m. extractMaterialTextures m ui) l s))"
  using forEach_preserves [of tableview "\<lambda>m. extractMaterialTextures m ui", OF tableview_extract]
    tableview_extract table_inv_view
  by (cases ms) auto

lemma table_inv_addNode: "table_inv s \<Longrightarrow> table_inv (snd (addNode ui n s))"
proof (cases "isRenderable (kind n)")
  case False
  then show "table_inv s \<Longrightarrow> ?thesis" by (simp add: addNode_def)
next
  case True
  assume p: "table_inv s"
  obtain i s1 where a: "assignIdToObject (ref n) s = (i, s1)"
    by (cases "assignIdToObject (ref n) s")
  have p1: "table_inv s1"
    using table_inv_assign [OF p, of "ref n"] by (simp add: a)
  have "table_inv (snd (then_do
            (case material n of
               NoMaterial \<Rightarrow> (Returned, s1)
             | Single m \<Rightarrow> extractMaterialTextures m ui s1
             | Multi ms \<Rightarrow> forEach (\<lambda>m. extractMaterialTextures m ui) ms s1)
            (\<lambda>s2. (Returned, submitCommand (AddObjectCmd n i ui) False s2))))"
  proof (rule then_do_inv [where P = table_inv])
    show "table_inv (snd (case material n of
               NoMaterial \<Rightarrow> (Returned, s1)
             | Single m \<Rightarrow> extractMaterialTextures m ui s1
             | Multi ms \<Rightarrow> forEach (\<lambda>m. extractMaterialTextures m ui) ms s1))"
      using p1 by (rule table_inv_materials)
  next
    fix s2 assume "table_inv s2"
    then show "table_inv (snd (Returned, submitCommand (AddObjectCmd n i ui) False s2))"
      using tableview_submit table_inv_view by simp
  qed
  with True show ?thesis by (simp add: addNode_def a)
qed

lemma tableview_updateNode: "tableview (snd (updateNode ui n s)) = tableview s"
proof (cases "material n")
  case (Single m)
  have "tableview (snd (then_do (extractMaterialTextures m ui s)
          (\<lambda>s1. (Returned, submitCommand (UpdateMaterialCmd m (meshId s1 (ref n))) False s1))))
      = tableview (snd (extractMaterialTextures m ui s))"
    by (rule then_do_preserves) (simp add: tableview_submit)
  with Single show ?thesis
    by (simp add: updateNode_def tableview_extract)
qed (simp_all add: updateNode_def)

lemma table_inv_step: "table_inv s \<Longrightarrow> table_inv (step c s)"
proof (cases c)
  case (CallInit w h p)
  assume p: "table_inv s"
  obtain i s1 where a: "assignIdToObject (camera s) s = (i, s1)"
    by (cases "assignIdToObject (camera s) s")
  have "table_inv s1"
    using table_inv_assign [OF p, of "camera s"] by (simp add: a)
  then show ?thesis
    using table_inv_view [of "submitCommand (ResizeCmd w h p) False (submitCommand InitCmd True s1)" s1]
    by (simp add: CallInit init_def a tableview_submit)
next
  case (CallResize w h p)
  assume "table_inv s"
  then show ?thesis
    using table_inv_view tableview_submit by (simp add: CallResize onResize_def)
next
  case (CallAdd obj ui)
  assume "table_inv s"
  then show ?thesis
    using forEach_inv [of table_inv "addNode ui", OF table_inv_addNode]
    by (simp add: CallAdd addObjectToScene_def)
next
  case (CallUpdateMaterial obj ui)
  assume "table_inv s"
  then show ?thesis
    using forEach_preserves [of tableview "updateNode ui", OF tableview_updateNode]
      table_inv_view by (simp add: CallUpdateMaterial updateMaterial_def)
next
  case (CallRemove obj)
  have "table_inv s \<Longrightarrow> table_inv (fold removeNode ns s)" for ns s
    by (induction ns arbitrary: s) (simp_all add: table_inv_removeNode)
  moreover assume "table_inv s"
  ultimately show ?thesis
    by (simp add: CallRemove removeObjectFromScene_def)
next
  case CallFlush
  assume "table_inv s"
  then show ?thesis
    by (simp add: CallFlush table_inv_def assigned_def flushCommands_def fold_postMessage_other)
next
  case (CallUpdate fr mw)
  assume "table_inv s"
  then show ?thesis
    by (simp add: CallUpdate table_inv_def assigned_def update_def writeTransformsToArray_def
        flushCommands_def fold_postMessage_other)
next
  case (CallMessage d)
  assume "table_inv s"
  then show ?thesis
    by (simp add: CallMessage table_inv_def assigned_def onmessage_def callHook_def report_def)
qed

lemma table_inv_lifetime: "table_inv s \<Longrightarrow> table_inv (lifetime calls s)"
  unfolding lifetime_def by (induction calls arbitrary: s) (simp_all add: table_inv_step)

lemma table_inv_Graphics: "table_inv (Graphics url cam)"
  by (simp add: table_inv_def assigned_def Graphics_def)

lemma table_inv_size:
  assumes "table_inv s"
  shows "length (idToObject s) \<le> objectId s"
proof -
  have "assigned s \<subseteq> {..<objectId s}"
    using assms by (auto simp: table_inv_def)
  then have "card (assigned s) \<le> card {..<objectId s}"
    by (intro card_mono) simp_all
  moreover have "card (assigned s) = length (idToObject s)"
  proof -
    have "assigned s = set (map fst (idToObject s))" by (simp add: assigned_def)
    then show ?thesis using assms by (simp add: table_inv_def distinct_card del: set_map)
  qed
  ultimately show ?thesis by simp
qed

text \<open>
  C4. Allocation never fails at capacity. In a state whose table holds \<open>maxEntityCount\<close>
  identities and whose free list is empty (\<open>table_inv\<close> holds in every state a
  sequence of calls reaches from the constructor's), \<open>assignIdToObject\<close> still returns
  an identity and registers the object under it; the identity is at least
  \<open>maxEntityCount\<close>, so its record starts at or beyond the end of the transform buffer;
  the counter advances by one and \<open>report\<close> is called with the capacity message. An
  allocation calls \<open>report\<close> exactly when the free list is empty and the counter has
  reached \<open>maxEntityCount\<close>: of the allocations of a new instance the first
  \<open>maxEntityCount\<close> report nothing and the next one returns \<open>maxEntityCount\<close> and
  reports.
\<close>

theorem capacity_reported_not_enforced:
  "(table_inv s \<and> length (idToObject s) = maxEntityCount \<and> availableObjectIds s = []
      \<longrightarrow> maxEntityCount \<le> fst (assignIdToObject obj s)
        \<and> bufferSize div bytesPerElement \<le> fst (assignIdToObject obj s) * elementsPerTransform
        \<and> objectId (snd (assignIdToObject obj s)) = objectId s + 1
        \<and> map_of (idToObject (snd (assignIdToObject obj s))) (fst (assignIdToObject obj s)) = Some obj
        \<and> hookCalls (snd (assignIdToObject obj s)) = hookCalls s @ [(Report, capacityMessage)])
   \<and> table_inv (lifetime calls (Graphics url cam))
   \<and> hookCalls (snd (assignIdToObject obj s)) =
       (if availableObjectIds s = [] \<and> maxEntityCount \<le> objectId s
        then hookCalls s @ [(Report, capacityMessage)] else hookCalls s)
   \<and> (length objs \<le> maxEntityCount
      \<longrightarrow> hookCalls (allocateAll objs (Graphics url cam)) = [(Log, url)]
        \<and> availableObjectIds (allocateAll objs (Graphics url cam)) = []
        \<and> length (idToObject (allocateAll objs (Graphics url cam))) = length objs)
   \<and> (length objs = maxEntityCount
      \<longrightarrow> fst (assignIdToObject obj (allocateAll objs (Graphics url cam))) = maxEntityCount
        \<and> length (array (allocateAll objs (Graphics url cam))) \<le> maxEntityCount * elementsPerTransform
        \<and> hookCalls (snd (assignIdToObject obj (allocateAll objs (Graphics url cam))))
            = [(Log, url), (Report, capacityMessage)])"
proof -
  let ?G = "Graphics url cam"
  have g: "availableObjectIds ?G = []" "objectId ?G = 0" "hookCalls ?G = [(Log, url)]"
    "length (array ?G) = bufferSize div bytesPerElement"
    by (simp_all add: Graphics_def)
  have p2: "bufferSize div bytesPerElement = maxEntityCount * elementsPerTransform"
    by (simp add: bufferSize_def bytesPerElement_def elementsPerTransform_def)
  have p1: "maxEntityCount \<le> fst (assignIdToObject obj s)
        \<and> bufferSize div bytesPerElement \<le> fst (assignIdToObject obj s) * elementsPerTransform
        \<and> objectId (snd (assignIdToObject obj s)) = objectId s + 1
        \<and> map_of (idToObject (snd (assignIdToObject obj s))) (fst (assignIdToObject obj s)) = Some obj
        \<and> hookCalls (snd (assignIdToObject obj s)) = hookCalls s @ [(Report, capacityMessage)]"
    if h: "table_inv s" "length (idToObject s) = maxEntityCount" "availableObjectIds s = []"
  proof -
    from table_inv_size [OF h(1)] h(2) have c: "maxEntityCount \<le> objectId s" by simp
    from assign_lookup [of obj s] c show ?thesis
      by (simp add: assign_counter [OF h(3)] assign_hookCalls h(3) p2)
  qed
  have p3: "table_inv (lifetime calls ?G)"
    using table_inv_Graphics by (rule table_inv_lifetime)
  note a = allocateAll_fresh [OF g(1), of objs]
  have len: "length (idToObject (allocateAll objs ?G)) = length objs"
    using alloc_inv_counter [OF allocateAll_inv [OF alloc_inv_Graphics, of objs url cam]] a
    by (simp add: g)
  have p4: "hookCalls (allocateAll objs ?G) = [(Log, url)]
        \<and> availableObjectIds (allocateAll objs ?G) = []
        \<and> length (idToObject (allocateAll objs ?G)) = length objs"
    if "length objs \<le> maxEntityCount"
    using a that len by (simp add: g)
  have p5: "fst (assignIdToObject obj (allocateAll objs ?G)) = maxEntityCount
        \<and> length (array (allocateAll objs ?G)) \<le> maxEntityCount * elementsPerTransform
        \<and> hookCalls (snd (assignIdToObject obj (allocateAll objs ?G)))
            = [(Log, url), (Report, capacityMessage)]"
    if "length objs = maxEntityCount"
    using a that p2 by (simp add: g assign_counter assign_hookCalls)
  from p1 p3 p4 p5 assign_hookCalls [of obj s] show ?thesis by blast
qed

theorem capacity_reported_not_enforced_witness:
  "table_inv ((Graphics [] 0)\<lparr>idToObject := map (\<lambda>i. (i, i)) [0..<maxEntityCount],
        objectId := maxEntityCount\<rparr>)
   \<and> length (idToObject ((Graphics [] 0)\<lparr>idToObject := map (\<lambda>i. (i, i)) [0..<maxEntityCount],
        objectId := maxEntityCount\<rparr>)) = maxEntityCount
   \<and> fst (assignIdToObject 5000 ((Graphics [] 0)\<lparr>idToObject := map (\<lambda>i. (i, i)) [0..<maxEntityCount],
        objectId := maxEntityCount\<rparr>)) = 1024
   \<and> hookCalls (snd (assignIdToObject 5000
        ((Graphics [] 0)\<lparr>idToObject := map (\<lambda>i. (i, i)) [0..<maxEntityCount],
        objectId := maxEntityCount\<rparr>))) = [(Log, []), (Report, capacityMessage)]
   \<and> length [0..<maxEntityCount] = maxEntityCount
   \<and> hookCalls (allocateAll [0..<maxEntityCount] (Graphics [] 0)) = [(Log, [])]
   \<and> fst (assignIdToObject 5000 (allocateAll [0..<maxEntityCount] (Graphics [] 0))) = 1024
   \<and> hookCalls (snd (assignIdToObject 5000 (allocateAll [0..<maxEntityCount] (Graphics [] 0))))
       = [(Log, []), (Report, capacityMessage)]"
proof -
  let ?full = "(Graphics [] 0)\<lparr>idToObject := map (\<lambda>i. (i, i)) [0..<maxEntityCount],
        objectId := maxEntityCount\<rparr>"
  have h1: "table_inv ?full"
    unfolding table_inv_def assigned_def
    by (simp add: Graphics_def image_image comp_def)
  have h2: "availableObjectIds ?full = []"
    by (simp add: Graphics_def)
  have h3: "length (idToObject ?full) = maxEntityCount"
    by simp
  have h4: "length [0..<maxEntityCount] = maxEntityCount"
    by simp
  have hc: "hookCalls ?full = [(Log, [])]"
    by (simp add: Graphics_def)
  have f: "fst (assignIdToObject 5000 ?full) = maxEntityCount"
    by (simp add: assign_counter [OF h2])
  have n: "maxEntityCount = 1024"
    by (simp add: maxEntityCount_def)
  from capacity_reported_not_enforced [of ?full 5000 "[]" "[]" 0 "[0..<maxEntityCount]"] h1 h2 h3 h4
  have "hookCalls (snd (assignIdToObject 5000 ?full)) = hookCalls ?full @ [(Report, capacityMessage)]
      \<and> hookCalls (allocateAll [0..<maxEntityCount] (Graphics [] 0)) = [(Log, [])]
      \<and> fst (assignIdToObject 5000 (allocateAll [0..<maxEntityCount] (Graphics [] 0))) = maxEntityCount
      \<and> hookCalls (snd (assignIdToObject 5000 (allocateAll [0..<maxEntityCount] (Graphics [] 0))))
       = [(Log, []), (Report, capacityMessage)]"
    by (simp only: le_refl simp_thms)
  then have "fst (assignIdToObject 5000 ?full) = maxEntityCount
      \<and> hookCalls (snd (assignIdToObject 5000 ?full)) = [(Log, []), (Report, capacityMessage)]
      \<and> hookCalls (allocateAll [0..<maxEntityCount] (Graphics [] 0)) = [(Log, [])]
      \<and> fst (assignIdToObject 5000 (allocateAll [0..<maxEntityCount] (Graphics [] 0))) = maxEntityCount
      \<and> hookCalls (snd (assignIdToObject 5000 (allocateAll [0..<maxEntityCount] (Graphics [] 0))))
       = [(Log, []), (Report, capacityMessage)]"
    using f by (simp only: hc append_Cons append_Nil simp_thms)
  with h1 h3 h4 show ?thesis
    by (simp only: n simp_thms)
qed

section \<open>Properties of the back-channel\<close>

text \<open>
  C7. \<open>onmessage\<close> passes the payload of a message tagged \<open>log\<close> to \<open>workerLog\<close>
  and the payload of a message tagged \<open>report\<close> to \<open>workerReport\<close>; for every
  other tag it calls \<open>report\<close> with a text naming the tag. Every message adds exactly
  one call of a hook: none is dropped silently.
\<close>

theorem backchannel_messages_reach_a_hook:
  "onmessage (BackMessage ''log'' m) s = s\<lparr>hookCalls := hookCalls s @ [(WorkerLog, m)]\<rparr>
   \<and> onmessage (BackMessage ''report'' m) s = s\<lparr>hookCalls := hookCalls s @ [(WorkerReport, m)]\<rparr>
   \<and> (t \<noteq> ''log'' \<and> t \<noteq> ''report''
        \<longrightarrow> onmessage (BackMessage t m) s
            = s\<lparr>hookCalls := hookCalls s @ [(Report, ''Unknown message type '' @ t)]\<rparr>)
   \<and> length (hookCalls (onmessage d s)) = length (hookCalls s) + 1
   \<and> onmessage d s \<noteq> s"
proof -
  have "length (hookCalls (onmessage d s)) = length (hookCalls s) + 1"
    by (simp add: onmessage_def callHook_def report_def)
  moreover from this have "onmessage d s \<noteq> s"
    by (metis n_not_Suc_n Suc_eq_plus1)
  ultimately show ?thesis
    by (simp add: onmessage_def callHook_def report_def)
qed

theorem backchannel_messages_reach_a_hook_witness:
  "''resize'' \<noteq> ''log'' \<and> ''resize'' \<noteq> ''report''
   \<and> onmessage (BackMessage ''resize'' ''x'') (Graphics [] 0)
       = (Graphics [] 0)\<lparr>hookCalls := [(Log, []), (Report, ''Unknown message type resize'')]\<rparr>"
proof -
  have h: "''resize'' \<noteq> ''log'' \<and> ''resize'' \<noteq> ''report''"
    by simp
  have g: "hookCalls (Graphics [] 0) = [(Log, [])]"
    by (simp add: Graphics_def)
  from backchannel_messages_reach_a_hook [of "''x''" "Graphics [] 0" "''resize''"] h
  have "onmessage (BackMessage ''resize'' ''x'') (Graphics [] 0)
      = (Graphics [] 0)\<lparr>hookCalls := hookCalls (Graphics [] 0) @ [(Report, ''Unknown message type '' @ ''resize'')]\<rparr>"
    by blast
  then show ?thesis
    using h by (simp add: g)
qed

text \<open>
  The older copy of the handler has no \<open>report\<close> case: there a message tagged
  \<open>report\<close> is reported through \<open>report\<close> as a message of unknown type.
\<close>

lemma onmessage_variant_report:
  "onmessage_variant (BackMessage ''report'' m) s = report ''Unknown message type report'' s"
  by (simp add: onmessage_variant_def)

section \<open>Properties of the reading side\<close>

lemma upt_0_16: "[0..<16] = [0, 1, 2, 3, 4, 5, 6, 7, 8, 9, 10, 11, 12, 13, 14, 15]"
  by code_simp

lemma fromArray_first: "fromArray a offset ! 0 = f32_load a offset"
  by (simp add: fromArray_def upt_0_16)

lemma readTransform_eq:
  "readTransform a i =
     (if f32_load a (i * 16) = Some 0 then makeScale 0.1 0.1 0.1 else fromArray a (i * 16))"
  by (simp add: readTransform_def Let_def fromArray_first elementsPerTransform_def)

lemma applyTransform_matrix:
  "objectMatrix (applyTransform a e b) = (objectMatrix b)(snd e := readTransform a (fst e))"
  by (cases e) (simp add: applyTransform_def)

lemma read_fold_other:
  "obj \<notin> snd ` set tab \<Longrightarrow>
   objectMatrix (fold (applyTransform a) tab b) obj = objectMatrix b obj"
  by (induction tab arbitrary: b) (auto simp: applyTransform_matrix)

lemma read_fold_entry:
  "distinct (map snd tab) \<Longrightarrow> (i, obj) \<in> set tab \<Longrightarrow>
   objectMatrix (fold (applyTransform a) tab b) obj = readTransform a i"
proof (induction tab arbitrary: b)
  case Nil
  then show ?case by simp
next
  case (Cons e tab)
  show ?case
  proof (cases "e = (i, obj)")
    case True
    with Cons.prems(1) have "obj \<notin> snd ` set tab" by auto
    with True show ?thesis by (simp add: read_fold_other applyTransform_matrix)
  next
    case False
    with Cons.prems have "(i, obj) \<in> set tab" "distinct (map snd tab)" by auto
    with Cons.IH show ?thesis by simp
  qed
qed

text \<open>
  C8, as the code has it. For an object registered under identity \<open>i\<close> in the
  renderer's table (each object under one identity), \<open>readTransformsFromArray\<close> sets
  the object's matrix to the scale matrix \<open>makeScale 0.1 0.1 0.1\<close> exactly when the
  first element of the record is 0, and to the 16 elements read at offset \<open>16 * i\<close>,
  unmodified, otherwise. So an all-zero record is replaced, and a record whose first
  element is not 0 is applied as it is.
\<close>

theorem zero_first_element_gets_default_scale:
  assumes "distinct (map snd (backendIdToObject b))" and "(i, obj) \<in> set (backendIdToObject b)"
  shows "objectMatrix (readTransformsFromArray a b) obj =
           (if f32_load a (i * 16) = Some 0 then makeScale 0.1 0.1 0.1 else fromArray a (i * 16))
     \<and> ((\<forall>k < 16. f32_load a (i * 16 + k) = Some 0)
          \<longrightarrow> objectMatrix (readTransformsFromArray a b) obj = makeScale 0.1 0.1 0.1)
     \<and> (f32_load a (i * 16) \<noteq> Some 0
          \<longrightarrow> objectMatrix (readTransformsFromArray a b) obj = fromArray a (i * 16))"
proof -
  have e: "objectMatrix (readTransformsFromArray a b) obj = readTransform a i"
    unfolding readTransformsFromArray_def using assms by (rule read_fold_entry)
  have z: "f32_load a (i * 16) = Some 0" if "\<forall>k < 16. f32_load a (i * 16 + k) = Some 0"
    using that [rule_format, of 0] by simp
  show ?thesis
    using z by (auto simp: e readTransform_eq)
qed

theorem zero_first_element_gets_default_scale_witness:
  "distinct (map snd (backendIdToObject exampleBackend))
   \<and> (0, 7) \<in> set (backendIdToObject exampleBackend)
   \<and> f32_load (replicate 16 0) (0 * 16) = Some 0
   \<and> f32_load (map real [1..<17]) (0 * 16) \<noteq> Some 0
   \<and> objectMatrix (readTransformsFromArray (replicate 16 0) exampleBackend) 7 = makeScale 0.1 0.1 0.1
   \<and> objectMatrix (readTransformsFromArray (map real [1..<17]) exampleBackend) 7
       = fromArray (map real [1..<17]) (0 * 16)"
proof -
  have h1: "distinct (map snd (backendIdToObject exampleBackend))"
    by (simp add: exampleBackend_def)
  have h2: "(0, 7) \<in> set (backendIdToObject exampleBackend)"
    by (simp add: exampleBackend_def)
  have h3: "\<forall>k < 16. f32_load (replicate 16 0) (0 * 16 + k) = Some 0"
    by (simp add: f32_load_def)
  have h4: "f32_load (map real [1..<17]) (0 * 16) \<noteq> Some 0"
    by (simp add: f32_load_def)
  have h5: "f32_load (replicate 16 0) (0 * 16) = Some 0"
    by (simp add: f32_load_def)
  from zero_first_element_gets_default_scale [OF h1 h2, of "replicate 16 0"] h3
  have a: "objectMatrix (readTransformsFromArray (replicate 16 0) exampleBackend) 7
      = makeScale 0.1 0.1 0.1"
    by blast
  from zero_first_element_gets_default_scale [OF h1 h2, of "map real [1..<17]"] h4
  have b: "objectMatrix (readTransformsFromArray (map real [1..<17]) exampleBackend) 7
       = fromArray (map real [1..<17]) (0 * 16)"
    by blast
  from h1 h2 h4 h5 a b show ?thesis
    by blast
qed

text \<open>
  The claim at the record of a quarter turn about the z axis, which is not all-zero but
  has 0 as its first element: it is replaced by the scale matrix.
\<close>

theorem rotated_record_replaced_counterexample:
  "quarterTurn ! 1 \<noteq> 0
   \<and> fromArray quarterTurn (0 * 16) = map Some quarterTurn
   \<and> objectMatrix (readTransformsFromArray quarterTurn exampleBackend) 7 = makeScale 0.1 0.1 0.1
   \<and> objectMatrix (readTransformsFromArray quarterTurn exampleBackend) 7
       \<noteq> fromArray quarterTurn (0 * 16)"
  by (simp add: quarterTurn_def exampleBackend_def readTransformsFromArray_def readTransform_def
      applyTransform_def fromArray_def f32_load_def makeScale_def upt_0_16 elementsPerTransform_def)

section \<open>Properties of the writing side\<close>

lemma f32_store_length: "length (f32_store fr a idx v) = length a"
  by (simp add: f32_store_def)

lemma f32_store_nth:
  "f32_store fr a idx v ! j = (if j = idx \<and> j < length a then fr v else a ! j)"
  by (auto simp: f32_store_def nth_list_update)

lemma store_loop_length:
  "length (fold (\<lambda>i a. f32_store fr a (off + i) (m ! i)) ks a) = length a"
  by (induction ks arbitrary: a) (simp_all add: f32_store_length)

lemma store_loop_nth:
  "fold (\<lambda>i a. f32_store fr a (off + i) (m ! i)) [0..<n] a ! j =
     (if off \<le> j \<and> j < off + n \<and> j < length a then fr (m ! (j - off)) else a ! j)"
proof (induction n)
  case 0
  show ?case by simp
next
  case (Suc n)
  let ?a = "fold (\<lambda>i a. f32_store fr a (off + i) (m ! i)) [0..<n] a"
  have l: "length ?a = length a"
    by (rule store_loop_length)
  have "fold (\<lambda>i a. f32_store fr a (off + i) (m ! i)) [0..<Suc n] a ! j
      = f32_store fr ?a (off + n) (m ! n) ! j"
    by simp
  also have "\<dots> = (if j = off + n \<and> j < length a then fr (m ! n) else ?a ! j)"
    by (simp add: f32_store_nth l)
  also have "\<dots> = (if off \<le> j \<and> j < off + Suc n \<and> j < length a then fr (m ! (j - off)) else a ! j)"
    by (auto simp: Suc.IH)
  finally show ?case .
qed

lemma writeRecord_length: "length (writeRecord fr m off a) = length a"
  by (simp add: writeRecord_def store_loop_length)

lemma writeRecord_nth:
  "writeRecord fr m off a ! j =
     (if off \<le> j \<and> j < off + 16 \<and> j < length a then fr (m ! (j - off)) else a ! j)"
  by (simp add: writeRecord_def store_loop_nth elementsPerTransform_def)

lemma writeRecord_out_of_range:
  assumes "length a \<le> off"
  shows "writeRecord fr m off a = a"
  by (rule nth_equalityI) (use assms in \<open>auto simp: writeRecord_length writeRecord_nth\<close>)

lemma writeTransform_length: "length (writeTransform fr mw e a) = length a"
  by (cases e) (simp add: writeTransform_def writeRecord_length)

lemma write_fold_length: "length (fold (writeTransform fr mw) tab a) = length a"
  by (induction tab arbitrary: a) (simp_all add: writeTransform_length)

lemma write_fold_other:
  assumes "i \<notin> fst ` set tab" and "i * 16 \<le> j" and "j < i * 16 + 16"
  shows "fold (writeTransform fr mw) tab a ! j = a ! j"
  using assms(1)
proof (induction tab arbitrary: a)
  case Nil
  show ?case by simp
next
  case (Cons e tab)
  obtain i' o' where e: "e = (i', o')" by (cases e)
  from Cons.prems have ne: "i' \<noteq> i" and rest: "i \<notin> fst ` set tab"
    by (auto simp: e)
  have "\<not> (i' * 16 \<le> j \<and> j < i' * 16 + 16)"
    using ne assms(2,3) by arith
  then have "writeTransform fr mw e a ! j = a ! j"
    by (auto simp: e writeTransform_def writeRecord_nth elementsPerTransform_def)
  with Cons.IH [OF rest] show ?case by simp
qed

lemma write_fold_entry:
  assumes "distinct (map fst tab)" and "(i, obj) \<in> set tab"
    and "i * 16 \<le> j" and "j < i * 16 + 16" and "j < length a"
  shows "fold (writeTransform fr mw) tab a ! j = fr (mw obj ! (j - i * 16))"
  using assms(1,2,5)
proof (induction tab arbitrary: a)
  case Nil
  then show ?case by simp
next
  case (Cons e tab)
  show ?case
  proof (cases "e = (i, obj)")
    case True
    with Cons.prems(1) have "i \<notin> fst ` set tab" by auto
    then have "fold (writeTransform fr mw) tab (writeTransform fr mw e a) ! j
        = writeTransform fr mw e a ! j"
      using assms(3,4) by (rule write_fold_other)
    also have "\<dots> = fr (mw obj ! (j - i * 16))"
      using assms(3,4) Cons.prems(3)
      by (simp add: True writeTransform_def writeRecord_nth elementsPerTransform_def)
    finally show ?thesis by simp
  next
    case False
    with Cons.prems have "(i, obj) \<in> set tab" "distinct (map fst tab)" by auto
    moreover have "j < length (writeTransform fr mw e a)"
      using Cons.prems(3) by (simp add: writeTransform_length)
    ultimately show ?thesis
      using Cons.IH by simp
  qed
qed

lemma flush_keeps_table:
  "idToObject (flushCommands s) = idToObject s" "array (flushCommands s) = array s"
  by (simp_all add: flushCommands_def fold_postMessage_other)

lemma update_array:
  "array (update fr mw s) = fold (writeTransform fr mw) (idToObject s) (array s)"
  by (simp add: update_def writeTransformsToArray_def flush_keeps_table)

lemma recordSlots_disjoint:
  assumes "i \<noteq> j"
  shows "set (recordSlots i) \<inter> set (recordSlots j) = {}"
proof -
  have "x \<notin> set (recordSlots j)" if "x \<in> set (recordSlots i)" for x
  proof -
    from that have "i * 16 \<le> x \<and> x < i * 16 + 16"
      by (auto simp: recordSlots_def elementsPerTransform_def)
    with assms have "\<not> (j * 16 \<le> x \<and> x < j * 16 + 16)"
      by arith
    then show ?thesis
      by (auto simp: recordSlots_def elementsPerTransform_def)
  qed
  then show ?thesis
    by blast
qed

lemma update_record_nth:
  assumes "distinct (map fst (idToObject s))" and "(i, obj) \<in> set (idToObject s)"
    and "i * 16 + 16 \<le> length (array s)" and "k < 16"
  shows "array (update fr mw s) ! (i * 16 + k) = fr (mw obj ! k)"
  using write_fold_entry [OF assms(1,2), of "i * 16 + k" "array s" fr mw] assms(3,4)
  by (simp add: update_array)

text \<open>
  C9, as the code has it. After \<open>update\<close>, for every identity \<open>i\<close> below
  \<open>maxEntityCount\<close> in the table, the 16 consecutive elements at offset \<open>16 * i\<close> of
  the buffer are the 16 \<open>elements\<close> of the object's world matrix in their own order,
  each rounded to single precision. This order is column-major: the entry of row \<open>r\<close>,
  column \<open>c\<close> is at index \<open>4 * c + r\<close> of the record. The records of distinct
  identities share no index, and the buffer keeps its length.
\<close>

theorem record_holds_elements_in_column_major_order:
  assumes "distinct (map fst (idToObject s))" and "(i, obj) \<in> set (idToObject s)"
    and "i < maxEntityCount" and "length (array s) = bufferSize div bytesPerElement"
    and "length (matrixWorld obj) = 16"
  shows "take 16 (drop (i * 16) (array (update fround matrixWorld s))) = map fround (matrixWorld obj)
     \<and> (\<forall>r c. r < 4 \<and> c < 4
          \<longrightarrow> array (update fround matrixWorld s) ! (i * 16 + (4 * c + r))
              = fround (entry (matrixWorld obj) r c))
     \<and> (\<forall>j. j \<noteq> i \<longrightarrow> set (recordSlots i) \<inter> set (recordSlots j) = {})
     \<and> length (array (update fround matrixWorld s)) = length (array s)"
proof -
  let ?a = "array (update fround matrixWorld s)"
  have len: "length ?a = length (array s)"
    by (simp add: update_array write_fold_length)
  have n: "length (array s) = 16 * maxEntityCount"
    using assms(4) by (simp add: bufferSize_def bytesPerElement_def elementsPerTransform_def)
  have inr: "i * 16 + 16 \<le> length (array s)"
    using assms(3) n by simp
  have k: "?a ! (i * 16 + k) = fround (matrixWorld obj ! k)" if "k < 16" for k
    using assms(1,2) inr that by (rule update_record_nth)
  have t: "take 16 (drop (i * 16) ?a) = map fround (matrixWorld obj)"
  proof (rule nth_equalityI)
    show "length (take 16 (drop (i * 16) ?a)) = length (map fround (matrixWorld obj))"
      using inr len assms(5) by simp
  next
    fix k assume "k < length (take 16 (drop (i * 16) ?a))"
    then have b: "k < 16" by simp
    then show "take 16 (drop (i * 16) ?a) ! k = map fround (matrixWorld obj) ! k"
      using k [OF b] inr len assms(5) by simp
  qed
  have e: "?a ! (i * 16 + (4 * c + r)) = fround (entry (matrixWorld obj) r c)"
    if "r < 4" "c < 4" for r c
  proof -
    from that have "4 * c + r < 16" by arith
    from k [OF this] show ?thesis by (simp add: entry_def)
  qed
  from t e len recordSlots_disjoint show ?thesis
    by blast
qed

lemma exampleScene_table:
  "distinct (map fst (idToObject exampleScene))" "(1, 1) \<in> set (idToObject exampleScene)"
  "length (array exampleScene) = bufferSize div bytesPerElement"
  by (simp_all add: exampleScene_eq Graphics_def)

theorem record_holds_elements_in_column_major_order_witness:
  "distinct (map fst (idToObject exampleScene)) \<and> (1, 1) \<in> set (idToObject exampleScene)
   \<and> 1 < maxEntityCount \<and> length (array exampleScene) = bufferSize div bytesPerElement
   \<and> length countingMatrix = 16
   \<and> take 16 (drop (1 * 16) (array (update (\<lambda>x. x) (\<lambda>_. countingMatrix) exampleScene)))
       = map (\<lambda>x. x) countingMatrix"
proof -
  have h3: "1 < maxEntityCount"
    by (simp add: maxEntityCount_def)
  have h5: "length countingMatrix = 16"
    by (simp add: countingMatrix_def)
  from record_holds_elements_in_column_major_order
    [OF exampleScene_table(1,2) h3 exampleScene_table(3), of "\<lambda>_. countingMatrix" "\<lambda>x. x"] h5
  have "take 16 (drop (1 * 16) (array (update (\<lambda>x. x) (\<lambda>_. countingMatrix) exampleScene)))
       = map (\<lambda>x. x) countingMatrix"
    by blast
  with exampleScene_table h3 h5 show ?thesis
    by blast
qed

text \<open>
  The claim's row-major index at the matrix whose \<open>elements\<close> are 0, 1, ..., 15: the
  entry of row 0, column 1 is 4, and index \<open>4 * 0 + 1\<close> of the record holds 1.
\<close>

theorem record_not_row_major_counterexample:
  "entry countingMatrix 0 1 = 4
   \<and> array (update (\<lambda>x. x) (\<lambda>_. countingMatrix) exampleScene) ! (1 * 16 + (4 * 0 + 1)) = 1"
proof -
  have l: "1 * 16 + 16 \<le> length (array exampleScene)"
    by (simp add: exampleScene_table(3) bufferSize_def bytesPerElement_def
        elementsPerTransform_def maxEntityCount_def)
  have "array (update (\<lambda>x. x) (\<lambda>_. countingMatrix) exampleScene) ! (1 * 16 + 1)
      = countingMatrix ! 1"
    using exampleScene_table(1,2) l by (rule update_record_nth) simp
  then show ?thesis
    by (simp add: entry_def countingMatrix_def)
qed

lemma writeTransform_out_of_range:
  assumes "elementsPerTransform * maxEntityCount \<le> i * elementsPerTransform + 15"
    and "length a = elementsPerTransform * maxEntityCount"
  shows "writeTransform fr mw (i, obj) a = a"
proof -
  have "length a \<le> i * elementsPerTransform"
    using assms by (simp add: elementsPerTransform_def)
  then show ?thesis
    by (simp add: writeTransform_def writeRecord_out_of_range)
qed

lemma write_fold_filter:
  assumes "length a = elementsPerTransform * maxEntityCount"
  shows "fold (writeTransform fr mw) tab a =
     fold (writeTransform fr mw)
       (filter (\<lambda>(i, obj). \<not> elementsPerTransform * maxEntityCount \<le> i * elementsPerTransform + 15) tab) a"
  using assms
proof (induction tab arbitrary: a)
  case Nil
  show ?case by simp
next
  case (Cons e tab)
  obtain i obj where e: "e = (i, obj)" by (cases e)
  have l: "length (writeTransform fr mw e a) = elementsPerTransform * maxEntityCount"
    using Cons.prems by (simp add: writeTransform_length)
  show ?case
  proof (cases "elementsPerTransform * maxEntityCount \<le> i * elementsPerTransform + 15")
    case True
    then have "writeTransform fr mw e a = a"
      unfolding e using Cons.prems by (rule writeTransform_out_of_range)
    with True Cons.IH [OF Cons.prems] show ?thesis
      by (simp add: e)
  next
    case False
    with Cons.IH [OF l] show ?thesis
      by (simp add: e)
  qed
qed

text \<open>
  C10. When the buffer has its constructed length, a table entry whose identity \<open>i\<close>
  has \<open>16 * i + 15\<close> at or beyond \<open>16 * maxEntityCount\<close> writes nothing: the buffer
  after \<open>writeTransformsToArray\<close> is the buffer the same call leaves when these
  entries are taken out of the table, and it keeps its length.
\<close>

theorem out_of_range_writes_dropped:
  assumes "length (array s) = bufferSize div bytesPerElement"
  shows "array (writeTransformsToArray fround matrixWorld s) =
      array (writeTransformsToArray fround matrixWorld
        (s\<lparr>idToObject :=
            filter (\<lambda>(i, obj). \<not> elementsPerTransform * maxEntityCount \<le> i * elementsPerTransform + 15)
              (idToObject s)\<rparr>))
     \<and> length (array (writeTransformsToArray fround matrixWorld s)) = length (array s)
     \<and> (\<forall>i obj. elementsPerTransform * maxEntityCount \<le> i * elementsPerTransform + 15
          \<longrightarrow> writeTransform fround matrixWorld (i, obj) (array s) = array s)"
proof -
  have n: "length (array s) = elementsPerTransform * maxEntityCount"
    using assms by (simp add: bufferSize_def bytesPerElement_def)
  show ?thesis
    using write_fold_filter [OF n, of fround matrixWorld "idToObject s"]
      writeTransform_out_of_range [OF _ n, of _ fround matrixWorld]
    by (simp add: writeTransformsToArray_def write_fold_length)
qed

theorem out_of_range_writes_dropped_witness:
  "length (array ((Graphics [] 0)\<lparr>idToObject := [(1, 1), (1024, 5)]\<rparr>))
     = bufferSize div bytesPerElement
   \<and> elementsPerTransform * maxEntityCount \<le> 1024 * elementsPerTransform + 15
   \<and> array (writeTransformsToArray (\<lambda>x. x) (\<lambda>_. countingMatrix)
        ((Graphics [] 0)\<lparr>idToObject := [(1, 1), (1024, 5)]\<rparr>))
     = array (writeTransformsToArray (\<lambda>x. x) (\<lambda>_. countingMatrix)
        ((Graphics [] 0)\<lparr>idToObject := [(1, 1)]\<rparr>))"
proof -
  let ?s = "(Graphics [] 0)\<lparr>idToObject := [(1, 1), (1024, 5)]\<rparr>"
  have h: "length (array ?s) = bufferSize div bytesPerElement"
    by (simp add: Graphics_def)
  have c: "elementsPerTransform * maxEntityCount \<le> 1024 * elementsPerTransform + 15"
    by (simp add: elementsPerTransform_def maxEntityCount_def)
  have f: "?s\<lparr>idToObject :=
            filter (\<lambda>(i, obj). \<not> elementsPerTransform * maxEntityCount \<le> i * elementsPerTransform + 15)
              (idToObject ?s)\<rparr> = (Graphics [] 0)\<lparr>idToObject := [(1, 1)]\<rparr>"
    by (simp add: elementsPerTransform_def maxEntityCount_def)
  from out_of_range_writes_dropped [OF h, of "\<lambda>x. x" "\<lambda>_. countingMatrix"]
  have "array (writeTransformsToArray (\<lambda>x. x) (\<lambda>_. countingMatrix) ?s) =
      array (writeTransformsToArray (\<lambda>x. x) (\<lambda>_. countingMatrix)
        (?s\<lparr>idToObject :=
            filter (\<lambda>(i, obj). \<not> elementsPerTransform * maxEntityCount \<le> i * elementsPerTransform + 15)
              (idToObject ?s)\<rparr>))"
    by blast
  then have "array (writeTransformsToArray (\<lambda>x. x) (\<lambda>_. countingMatrix) ?s) =
      array (writeTransformsToArray (\<lambda>x. x) (\<lambda>_. countingMatrix)
        ((Graphics [] 0)\<lparr>idToObject := [(1, 1)]\<rparr>))"
    by (simp only: f)
  with h c show ?thesis
    by blast
qed

end
